theory Spec2Isabelle
  imports Main "HOL-Library.AList"
begin

section \<open>Common data\<close>

text \<open>
  The errors the modelled functions raise. A raise in the source is an \<open>Inl\<close> of the model.
\<close>

datatype error =
    RuntimeError
  | KeyError
  | IndexError
  | TypeError
  | ValueError string
  | NotImplementedError
  | LoopyError

type_synonym iname = string
type_synonym insn_id = string
type_synonym predicate = string

subsection \<open>Python sets that the code iterates over\<close>

text \<open>
  A Python \<open>set\<close>/\<open>frozenset\<close> that the code iterates over is a list without repetitions,
  in iteration order; the operators below are the set operators on that representation.
  Statements about their results are made on \<open>set xs\<close>.
\<close>

definition py_and :: "'a list \<Rightarrow> 'a list \<Rightarrow> 'a list" where
  "py_and xs ys = filter (\<lambda>x. x \<in> set ys) xs"

definition py_sub :: "'a list \<Rightarrow> 'a list \<Rightarrow> 'a list" where
  "py_sub xs ys = filter (\<lambda>x. x \<notin> set ys) xs"

definition py_or :: "'a list \<Rightarrow> 'a list \<Rightarrow> 'a list" where
  "py_or xs ys = xs @ filter (\<lambda>y. y \<notin> set xs) (remdups ys)"

definition py_add :: "'a \<Rightarrow> 'a list \<Rightarrow> 'a list" where
  "py_add x xs = (if x \<in> set xs then xs else xs @ [x])"

subsection \<open>Iname tags\<close>

text \<open>
  Modelled from the spec: the iname tag classes of \<open>loopy.kernel.data\<close>, which is not among
  the sources. The spec lists the tags of an iname as: none, unrolled, ILP-interleaved,
  forced-sequential, hardware group axis, hardware local axis. "None" is the absence of
  an entry in \<open>iname_to_tag\<close>. The two hardware axis tags are the \<open>HardwareParallelTag\<close>s,
  and each carries its axis number.
\<close>

datatype tag =
    UnrollTag
  | UnrolledIlpTag
  | LoopedIlpTag
  | ForceSequentialTag
  | GroupIndexTag int
  | LocalIndexTag int

fun is_HardwareParallelTag :: "tag \<Rightarrow> bool" where
  "is_HardwareParallelTag (GroupIndexTag _) = True"
| "is_HardwareParallelTag (LocalIndexTag _) = True"
| "is_HardwareParallelTag _ = False"

fun is_LocalIndexTag :: "tag \<Rightarrow> bool" where
  "is_LocalIndexTag (LocalIndexTag _) = True"
| "is_LocalIndexTag _ = False"

text \<open>
  Modelled from the spec: \<open>tag.key\<close>, the "physical hardware axis key" of a tag: the kind
  of the axis and its number.
\<close>

datatype tag_key = TagKey string "int option"

fun key :: "tag \<Rightarrow> tag_key" where
  "key UnrollTag = TagKey ''UnrollTag'' None"
| "key UnrolledIlpTag = TagKey ''UnrolledIlpTag'' None"
| "key LoopedIlpTag = TagKey ''LoopedIlpTag'' None"
| "key ForceSequentialTag = TagKey ''ForceSequentialTag'' None"
| "key (GroupIndexTag axis) = TagKey ''GroupIndexTag'' (Some axis)"
| "key (LocalIndexTag axis) = TagKey ''LocalIndexTag'' (Some axis)"

subsection \<open>Schedule and kernel\<close>

text \<open>
  Modelled from the spec: the schedule items of \<open>loopy.schedule\<close> (not among the sources):
  EnterLoop(iname), LeaveLoop(iname), Barrier(kind, optional comment; the empty string is
  "no comment"), RunInstruction(instruction id).
\<close>

datatype sched_item =
    EnterLoop iname
  | LeaveLoop iname
  | Barrier string string
  | RunInstruction insn_id

record instruction =
  predicates :: "predicate list"

text \<open>
  The kernel, as far as \<open>loopy.codegen.control\<close> reads it. \<open>iname_to_tag\<close> is a dict the code
  both looks up (\<open>.get\<close>, here \<open>map_of\<close>) and iterates over (\<open>iteritems\<close>), so it is an
  association list; a dict has each key once.
\<close>

record kernel =
  iname_to_tag :: "(iname \<times> tag) list"
  schedule :: "sched_item list"
  id_to_insn :: "insn_id \<rightharpoonup> instruction"

section \<open>Schedule queries\<close>

text \<open>
  Modelled from the spec: \<open>find_active_inames_at\<close> of \<open>loopy.schedule\<close> (not among the
  sources): "the set of inames whose EnterLoop encloses the position and whose LeaveLoop
  has not yet occurred".
\<close>

fun active_inames_scan :: "sched_item list \<Rightarrow> iname list \<Rightarrow> iname list" where
  "active_inames_scan [] active = active"
| "active_inames_scan (EnterLoop i # rest) active = active_inames_scan rest (py_add i active)"
| "active_inames_scan (LeaveLoop i # rest) active = active_inames_scan rest (removeAll i active)"
| "active_inames_scan (_ # rest) active = active_inames_scan rest active"

definition find_active_inames_at :: "kernel \<Rightarrow> nat \<Rightarrow> iname list" where
  "find_active_inames_at knl sched_index =
     active_inames_scan (take sched_index (schedule knl)) []"

text \<open>
  Modelled from the spec: the subtree rooted at a position. At an EnterLoop it is the
  items up to and including the matching LeaveLoop ("skipping nested loops" by counting
  the nesting level); at any other item it is that item alone.
\<close>

fun gather_until_leave :: "nat \<Rightarrow> sched_item list \<Rightarrow> sched_item list" where
  "gather_until_leave level [] = []"
| "gather_until_leave level (EnterLoop i # rest) =
     EnterLoop i # gather_until_leave (Suc level) rest"
| "gather_until_leave level (LeaveLoop i # rest) =
     (if level \<le> 1 then [LeaveLoop i]
      else LeaveLoop i # gather_until_leave (level - 1) rest)"
| "gather_until_leave level (x # rest) = x # gather_until_leave level rest"

definition subtree_at :: "sched_item list \<Rightarrow> nat \<Rightarrow> sched_item list" where
  "subtree_at sched start_idx =
     (case drop start_idx sched of
        [] \<Rightarrow> []
      | EnterLoop i # rest \<Rightarrow> EnterLoop i # gather_until_leave 1 rest
      | x # rest \<Rightarrow> [x])"

fun is_Barrier :: "sched_item \<Rightarrow> bool" where
  "is_Barrier (Barrier _ _) = True"
| "is_Barrier _ = False"

fun is_leaf :: "sched_item \<Rightarrow> bool" where
  "is_leaf (Barrier _ _) = True"
| "is_leaf (RunInstruction _) = True"
| "is_leaf _ = False"

text \<open>
  Modelled from the spec: \<open>has_barrier_within\<close> of \<open>loopy.schedule\<close> (not among the sources):
  "true if a Barrier item occurs anywhere in the subtree rooted at a position (including
  nested loops)".
\<close>

definition has_barrier_within :: "kernel \<Rightarrow> nat \<Rightarrow> bool" where
  "has_barrier_within knl sched_index =
     list_ex is_Barrier (subtree_at (schedule knl) sched_index)"

text \<open>
  Modelled from the spec: \<open>generate_sub_sched_items\<close> of \<open>loopy.schedule\<close> (not among the
  sources): the "(index, item) pairs for all RunInstruction/Barrier leaves within a
  subtree, descending into nested loops but not past the subtree boundary".
\<close>

definition generate_sub_sched_items :: "sched_item list \<Rightarrow> nat \<Rightarrow> (nat \<times> sched_item) list" where
  "generate_sub_sched_items sched start_idx =
     (let items = subtree_at sched start_idx
      in filter (\<lambda>(i, item). is_leaf item) (zip [start_idx ..< start_idx + length items] items))"

section \<open>Admissibility analysis (loopy.codegen.control)\<close>

subsection \<open>get_admissible_conditional_inames_for\<close>

text \<open>
  The body of the loop over \<open>kernel.iname_to_tag\<close>: a hardware-parallel tagged iname is
  added unless a barrier is nested within and the tag is a local index tag.
\<close>

definition admit_iname :: "bool \<Rightarrow> iname \<times> tag \<Rightarrow> iname list \<Rightarrow> iname list" where
  "admit_iname has_barrier it result =
     (case it of (iname, tag) \<Rightarrow>
        if is_HardwareParallelTag tag then
          (if \<not> has_barrier \<or> \<not> is_LocalIndexTag tag then py_add iname result else result)
        else result)"

definition get_admissible_conditional_inames_for :: "kernel \<Rightarrow> nat \<Rightarrow> iname list" where
  "get_admissible_conditional_inames_for knl sched_index =
     (let result = find_active_inames_at knl sched_index;
          has_barrier = has_barrier_within knl sched_index
      in fold (admit_iname has_barrier) (iname_to_tag knl) result)"

subsection \<open>remove_inames_for_shared_hw_axes\<close>

text \<open>\<open>tag_key_uses.setdefault(k, []).append(iname)\<close> on a dict kept as an association list.\<close>

definition setdefault_append :: "'k \<Rightarrow> 'v \<Rightarrow> ('k \<times> 'v list) list \<Rightarrow> ('k \<times> 'v list) list" where
  "setdefault_append k v d =
     (case map_of d k of
        None \<Rightarrow> d @ [(k, [v])]
      | Some vs \<Rightarrow> AList.update k (vs @ [v]) d)"

text \<open>The first loop: the users of each hardware axis key.\<close>

definition note_tag_key_use ::
  "kernel \<Rightarrow> iname \<Rightarrow> (tag_key \<times> iname list) list
     \<Rightarrow> (tag_key \<times> iname list) list" where
  "note_tag_key_use knl iname tag_key_uses =
     (case map_of (iname_to_tag knl) iname of
        None \<Rightarrow> tag_key_uses
      | Some tag \<Rightarrow>
          if is_HardwareParallelTag tag then setdefault_append (key tag) iname tag_key_uses
          else tag_key_uses)"

definition multi_use_keys_of ::
  "(tag_key \<times> iname list) list \<Rightarrow> tag_key list" where
  "multi_use_keys_of tag_key_uses =
     map fst (filter (\<lambda>(k, user_inames). length user_inames > 1) tag_key_uses)"

text \<open>The second loop: the inames whose key has several users.\<close>

definition note_multi_use_iname ::
  "kernel \<Rightarrow> tag_key list \<Rightarrow> iname \<Rightarrow> iname list \<Rightarrow> iname list" where
  "note_multi_use_iname knl multi_use_keys iname multi_use_inames =
     (case map_of (iname_to_tag knl) iname of
        None \<Rightarrow> multi_use_inames
      | Some tag \<Rightarrow>
          if is_HardwareParallelTag tag \<and> key tag \<in> set multi_use_keys
          then py_add iname multi_use_inames
          else multi_use_inames)"

definition remove_inames_for_shared_hw_axes :: "kernel \<Rightarrow> iname list \<Rightarrow> iname list" where
  "remove_inames_for_shared_hw_axes knl cond_inames =
     (let tag_key_uses = fold (note_tag_key_use knl) cond_inames [];
          multi_use_keys = multi_use_keys_of tag_key_uses;
          multi_use_inames = fold (note_multi_use_iname knl multi_use_keys) cond_inames []
      in py_sub cond_inames multi_use_inames)"

subsection \<open>get_required_predicates\<close>

text \<open>
  The loop over the leaves of the subtree. \<open>result\<close> starts as Python's \<open>None\<close> (here the
  option \<open>None\<close>) and is returned as it stands after the loop.
\<close>

fun required_predicates_loop ::
  "kernel \<Rightarrow> (nat \<times> sched_item) list \<Rightarrow> predicate list option
     \<Rightarrow> error + predicate list option" where
  "required_predicates_loop knl [] result = Inr result"
| "required_predicates_loop knl ((_, sched_item) # rest) result =
     (case (case sched_item of
              Barrier _ _ \<Rightarrow> Inr []
            | RunInstruction insn_id \<Rightarrow>
                (case id_to_insn knl insn_id of
                   None \<Rightarrow> Inl KeyError
                 | Some insn \<Rightarrow> Inr (predicates insn))
            | _ \<Rightarrow> Inl RuntimeError) of
        Inl e \<Rightarrow> Inl e
      | Inr my_preds \<Rightarrow>
          required_predicates_loop knl rest
            (case result of
               None \<Rightarrow> Some my_preds
             | Some r \<Rightarrow> Some (py_and r my_preds)))"

definition get_required_predicates :: "kernel \<Rightarrow> nat \<Rightarrow> error + predicate list option" where
  "get_required_predicates knl sched_index =
     required_predicates_loop knl
       (generate_sub_sched_items (schedule knl) sched_index) None"

section \<open>The conditional-hoisting builder (loopy.codegen.control)\<close>

subsection \<open>Generated code, codegen state, collaborators\<close>

text \<open>
  Modelled from the spec: the code objects of \<open>loopy.codegen\<close> (not among the sources).
  \<open>wrap_in_if(conditionals, inner)\<close> and \<open>gen_code_block(elements)\<close> are kept as
  constructors; a conditional is the code of a bounds-check constraint
  (\<open>constraint_to_code\<close>) or a predicate. \<open>Generated\<close> is what the backend's own
  generators return, \<open>BarrierStatement\<close> the \<open>GeneratedInstruction\<close> built for a barrier.
\<close>

datatype 'c conditional = ConstraintCode 'c | PredicateCode predicate

datatype ('c, 'a) code =
    Generated 'a
  | BarrierStatement string
  | WrapInIf "'c conditional list" "('c, 'a) code"
  | GenCodeBlock "('c, 'a) code list"

text \<open>
  Modelled from the spec: the codegen state of \<open>loopy.codegen\<close> (not among the sources):
  "the pair (implemented domain, implemented predicate set) plus backend context; an
  immutable value". The domain is an isl set, of a type \<open>'s\<close> left open.
\<close>

record 's codegen_state =
  implemented_domain :: 's
  implemented_predicates :: "predicate list"

text \<open>
  What \<open>build_insn_group\<close> calls and this repository's sources do not contain, taken as
  parameters: the schedule query \<open>find_used_inames_within\<close>; the derivation of bounds
  checks behind \<open>BoundsCheckCache.__call__\<close> for a non-empty iname set
  (\<open>kernel.get_inames_domain\<close>, \<open>isl.align_spaces\<close> and \<open>get_bounds_checks\<close> with
  \<open>overapproximate=True\<close>), whose result is a list of constraints or Python's \<open>None\<close>,
  the "impossible bounds check" the caller tests for; the isl operations
  \<open>BasicSet.universe(cns.get_space()).add_constraint(cns)\<close>, \<open>align_two\<close> followed by
  \<open>intersect\<close>, and \<open>is_empty\<close>; and the three generators the leaf dispatcher
  delegates to. A generator raises (\<open>Inl\<close>), returns code, or returns \<open>None\<close>; its code
  is of a type \<open>'a\<close> left open, and enters the result as \<open>Generated\<close>.
\<close>

record ('c, 's, 'a) collaborators =
  find_used_inames_within :: "kernel \<Rightarrow> nat \<Rightarrow> iname list"
  get_bounds_checks :: "kernel \<Rightarrow> 's \<Rightarrow> iname list \<Rightarrow> 'c list option"
  isl_universe_add_constraint :: "'c \<Rightarrow> 's"
  isl_intersect :: "'s \<Rightarrow> 's \<Rightarrow> 's"
  isl_is_empty :: "'s \<Rightarrow> bool"
  generate_unroll_loop :: "kernel \<Rightarrow> nat \<Rightarrow> 's codegen_state \<Rightarrow> error + 'a option"
  generate_sequential_loop_dim_code ::
    "kernel \<Rightarrow> nat \<Rightarrow> 's codegen_state \<Rightarrow> error + 'a option"
  generate_instruction_code ::
    "kernel \<Rightarrow> instruction \<Rightarrow> 's codegen_state \<Rightarrow> error + 'a option"

text \<open>The per-sibling record that pass 2 of \<open>build_loop_nest\<close> builds.\<close>

record ScheduleIndexInfo =
  schedule_index :: nat
  admissible_cond_inames :: "iname list"
  required_predicates :: "predicate list"

subsection \<open>generate_code_for_sched_index\<close>

text \<open>
  \<open>generated\<close> passes on what a generator returns. \<open>kernel.schedule[sched_index]\<close> raises IndexError out of range and
  \<open>kernel.id_to_insn[...]\<close> raises KeyError; a LeaveLoop reaches the final \<open>else\<close>.
\<close>

definition generated :: "error + 'a option \<Rightarrow> error + ('c, 'a) code option" where
  "generated r =
     (case r of
        Inl e \<Rightarrow> Inl e
      | Inr None \<Rightarrow> Inr None
      | Inr (Some a) \<Rightarrow> Inr (Some (Generated a)))"

definition generate_code_for_sched_index ::
  "('c, 's, 'a) collaborators \<Rightarrow> kernel \<Rightarrow> nat \<Rightarrow> 's codegen_state
     \<Rightarrow> error + ('c, 'a) code option" where
  "generate_code_for_sched_index env knl sched_index codegen_state =
     (if sched_index < length (schedule knl) then
        (case schedule knl ! sched_index of
           EnterLoop iname \<Rightarrow>
             (let tag = map_of (iname_to_tag knl) iname in
              if tag = Some UnrollTag \<or> tag = Some UnrolledIlpTag then
                generated (generate_unroll_loop env knl sched_index codegen_state)
              else if tag = None \<or> tag = Some LoopedIlpTag \<or> tag = Some ForceSequentialTag then
                generated (generate_sequential_loop_dim_code env knl sched_index codegen_state)
              else Inl RuntimeError)
         | Barrier kind comment \<Rightarrow>
             Inr (Some (BarrierStatement
               (''barrier(CLK_LOCAL_MEM_FENCE)'' @
                  (if comment \<noteq> [] then '' /* '' @ comment @ '' */'' else ''''))))
         | RunInstruction insn_id \<Rightarrow>
             (case id_to_insn knl insn_id of
                None \<Rightarrow> Inl KeyError
              | Some insn \<Rightarrow>
                  generated (generate_instruction_code env knl insn codegen_state))
         | LeaveLoop iname \<Rightarrow> Inl RuntimeError)
      else Inl IndexError)"

subsection \<open>build_insn_group\<close>

text \<open>
  \<open>BoundsCheckCache.__call__\<close>: no check for an empty iname set. The memoisation does
  not change the value returned.
\<close>

definition bounds_check_cache ::
  "('c, 's, 'a) collaborators \<Rightarrow> kernel \<Rightarrow> 's \<Rightarrow> iname list \<Rightarrow> 'c list option" where
  "bounds_check_cache env knl impl_domain check_inames =
     (if check_inames = [] then Some []
      else get_bounds_checks env knl impl_domain check_inames)"

text \<open>An entry of \<open>found_hoists\<close>: (candidate_group_length, bounds_checks, current_pred_set).\<close>

type_synonym 'c hoist = "nat \<times> 'c list option \<times> predicate list"

text \<open>The loop that collects \<open>used_inames\<close> over \<open>sched_index_info_entries[0:candidate_group_length]\<close>.\<close>

definition used_inames_of ::
  "('c, 's, 'a) collaborators \<Rightarrow> kernel \<Rightarrow> ScheduleIndexInfo list \<Rightarrow> iname list" where
  "used_inames_of env knl entries =
     fold (\<lambda>sched_index_info_entry used_inames.
             py_or used_inames
               (find_used_inames_within env knl (schedule_index sched_index_info_entry)))
       entries []"

text \<open>
  The \<open>while candidate_group_length <= len(sched_index_info_entries)\<close> loop. A length in
  \<open>done_group_lengths\<close> is skipped by \<open>continue\<close>, before the two running intersections
  are updated. The loop starts at 1, so the index \<open>candidate_group_length-1\<close> is in range.
\<close>

function grow_group ::
  "('c, 's, 'a) collaborators \<Rightarrow> kernel \<Rightarrow> 's codegen_state \<Rightarrow> ScheduleIndexInfo list
     \<Rightarrow> nat set \<Rightarrow> nat \<Rightarrow> iname list \<Rightarrow> predicate list \<Rightarrow> 'c hoist list
     \<Rightarrow> 'c hoist list" where
  "grow_group env knl codegen_state sched_index_info_entries done_group_lengths
       candidate_group_length current_iname_set current_pred_set found_hoists =
     (if candidate_group_length \<le> length sched_index_info_entries then
        if candidate_group_length \<in> done_group_lengths then
          grow_group env knl codegen_state sched_index_info_entries done_group_lengths
            (candidate_group_length + 1) current_iname_set current_pred_set found_hoists
        else
          (let current_iname_set' =
                 py_and current_iname_set
                   (admissible_cond_inames
                      (sched_index_info_entries ! (candidate_group_length - 1)));
               current_pred_set' =
                 py_and current_pred_set
                   (required_predicates
                      (sched_index_info_entries ! (candidate_group_length - 1)));
               used_inames =
                 used_inames_of env knl (take candidate_group_length sched_index_info_entries);
               only_unshared_inames =
                 remove_inames_for_shared_hw_axes knl (py_and current_iname_set' used_inames);
               bounds_checks =
                 bounds_check_cache env knl (implemented_domain codegen_state)
                   only_unshared_inames
           in grow_group env knl codegen_state sched_index_info_entries done_group_lengths
                (candidate_group_length + 1) current_iname_set' current_pred_set'
                (if (case bounds_checks of Some cs \<Rightarrow> cs \<noteq> [] | None \<Rightarrow> False)
                    \<or> bounds_checks = None
                    \<or> current_pred_set' \<noteq> []
                    \<or> candidate_group_length = 1
                 then found_hoists @ [(candidate_group_length, bounds_checks, current_pred_set')]
                 else found_hoists))
      else found_hoists)"
  by pat_completeness auto
termination
  by (relation "measure (\<lambda>(env, knl, st, entries, dgl, k, cis, cps, found).
                  Suc (length entries) - k)") auto

text \<open>
  \<open>max(found_hoists)\<close>: ValueError on an empty list. Tuples compare lexicographically;
  the lengths in \<open>found_hoists\<close> are pairwise different (lemma
  \<open>found_hoists_distinct_lengths\<close>), so the first component decides and the other
  components are never compared.
\<close>

fun py_max :: "'c hoist list \<Rightarrow> error + 'c hoist" where
  "py_max [] = Inl (ValueError ''max() arg is an empty sequence'')"
| "py_max (h # hs) = Inr (fold (\<lambda>x m. if fst m < fst x then x else m) hs h)"

text \<open>The \<open>for cns in bounds_checks\<close> loop that builds \<open>check_set\<close>, from \<open>None\<close>.\<close>

fun combine_check_set ::
  "('c, 's, 'a) collaborators \<Rightarrow> 'c list \<Rightarrow> 's option \<Rightarrow> 's option" where
  "combine_check_set env [] check_set = check_set"
| "combine_check_set env (cns # rest) check_set =
     combine_check_set env rest
       (case check_set of
          None \<Rightarrow> Some (isl_universe_add_constraint env cns)
        | Some s \<Rightarrow> Some (isl_intersect env s (isl_universe_add_constraint env cns)))"

text \<open>
  Modelled from the spec: \<open>codegen_state.intersect\<close> of \<open>loopy.codegen\<close> (not among the
  sources): the implemented domain "is narrowed (intersected) every time a conditional is
  emitted around a region"; narrowing "produces a new state".
\<close>

definition state_intersect ::
  "('c, 's, 'a) collaborators \<Rightarrow> 's codegen_state \<Rightarrow> 's \<Rightarrow> 's codegen_state" where
  "state_intersect env codegen_state other =
     codegen_state\<lparr>implemented_domain :=
       isl_intersect env (implemented_domain codegen_state) other\<rparr>"

definition check_set_is_empty :: "('c, 's, 'a) collaborators \<Rightarrow> 's option \<Rightarrow> bool" where
  "check_set_is_empty env check_set =
     (case check_set of None \<Rightarrow> False | Some s \<Rightarrow> isl_is_empty env s)"

text \<open>
  \<open>new_codegen_state\<close> as lines 332 to 342 compute it: narrowed by \<open>check_set\<close> if there is
  one, then \<open>copy(implemented_predicates=... | pred_checks)\<close> if \<open>pred_checks\<close> is not empty.
\<close>

definition new_codegen_state ::
  "('c, 's, 'a) collaborators \<Rightarrow> 's codegen_state \<Rightarrow> 's option \<Rightarrow> predicate list
     \<Rightarrow> 's codegen_state" where
  "new_codegen_state env codegen_state check_set pred_checks =
     (let narrowed = (case check_set of
                        None \<Rightarrow> codegen_state
                      | Some s \<Rightarrow> state_intersect env codegen_state s)
      in if pred_checks \<noteq> [] then
           narrowed\<lparr>implemented_predicates :=
             py_or (implemented_predicates narrowed) pred_checks\<rparr>
         else narrowed)"

text \<open>The hoists found by the loop, started as lines 257 to 273 do.\<close>

definition found_hoists_of ::
  "('c, 's, 'a) collaborators \<Rightarrow> kernel \<Rightarrow> ScheduleIndexInfo list \<Rightarrow> 's codegen_state
     \<Rightarrow> nat set \<Rightarrow> 'c hoist list" where
  "found_hoists_of env knl sched_index_info_entries codegen_state done_group_lengths =
     grow_group env knl codegen_state sched_index_info_entries done_group_lengths 1
       (admissible_cond_inames (hd sched_index_info_entries))
       (py_sub (required_predicates (hd sched_index_info_entries))
          (implemented_predicates codegen_state))
       []"

text \<open>
  \<open>build_insn_group\<close> itself. The entries carry predicate sets; iterating over a
  \<open>bounds_checks\<close> that is \<open>None\<close> raises TypeError. The default argument
  \<open>done_group_lengths=set()\<close> is the \<open>{}\<close> of the call on the remainder.
\<close>

function build_insn_group ::
  "('c, 's, 'a) collaborators \<Rightarrow> kernel \<Rightarrow> ScheduleIndexInfo list \<Rightarrow> 's codegen_state
     \<Rightarrow> nat set \<Rightarrow> error + ('c, 'a) code list" where
  "build_insn_group env knl sched_index_info_entries codegen_state done_group_lengths =
     (if sched_index_info_entries = [] then Inr []
      else
        case py_max (found_hoists_of env knl sched_index_info_entries codegen_state
                       done_group_lengths) of
          Inl e \<Rightarrow> Inl e
        | Inr (group_length, None, pred_checks) \<Rightarrow> Inl TypeError
        | Inr (group_length, Some bounds_checks, pred_checks) \<Rightarrow>
            (case
               (if check_set_is_empty env (combine_check_set env bounds_checks None) then Inr []
                else
                  case
                    (if group_length = 1 then
                       (case generate_code_for_sched_index env knl
                               (schedule_index (hd sched_index_info_entries))
                               (new_codegen_state env codegen_state
                                  (combine_check_set env bounds_checks None) pred_checks) of
                          Inl e \<Rightarrow> Inl e
                        | Inr None \<Rightarrow> Inr []
                        | Inr (Some c) \<Rightarrow> Inr [c])
                     else
                       build_insn_group env knl (take group_length sched_index_info_entries)
                         (new_codegen_state env codegen_state
                            (combine_check_set env bounds_checks None) pred_checks)
                         (insert group_length done_group_lengths)) of
                    Inl e \<Rightarrow> Inl e
                  | Inr result \<Rightarrow>
                      Inr (if bounds_checks \<noteq> [] \<or> pred_checks \<noteq> [] then
                             [WrapInIf (map ConstraintCode bounds_checks
                                          @ map PredicateCode pred_checks)
                                (GenCodeBlock result)]
                           else result)) of
               Inl e \<Rightarrow> Inl e
             | Inr result \<Rightarrow>
                 (case build_insn_group env knl (drop group_length sched_index_info_entries)
                         codegen_state {} of
                    Inl e \<Rightarrow> Inl e
                  | Inr rest \<Rightarrow> Inr (result @ rest))))"
  by pat_completeness auto

section \<open>Notions used in the statements\<close>

subsection \<open>Shared hardware axes\<close>

text \<open>
  What the claim about \<open>remove_inames_for_shared_hw_axes\<close> calls an iname whose hardware
  axis key is shared: the iname has a hardware-parallel tag, and another iname of the
  input has a hardware-parallel tag with the same key.
\<close>

definition shares_hw_axis :: "kernel \<Rightarrow> iname list \<Rightarrow> iname \<Rightarrow> bool" where
  "shares_hw_axis knl cond_inames iname =
     (case map_of (iname_to_tag knl) iname of
        None \<Rightarrow> False
      | Some tag \<Rightarrow>
          is_HardwareParallelTag tag \<and>
          list_ex (\<lambda>other. other \<noteq> iname \<and>
                    (case map_of (iname_to_tag knl) other of
                       None \<Rightarrow> False
                     | Some tag' \<Rightarrow> is_HardwareParallelTag tag' \<and> key tag' = key tag))
                  cond_inames)"

text \<open>The value of a dict of lists at a key, the empty list where the key is absent.\<close>

definition lookup_uses :: "('k \<times> 'v list) list \<Rightarrow> 'k \<Rightarrow> 'v list" where
  "lookup_uses d k = (case map_of d k of None \<Rightarrow> [] | Some vs \<Rightarrow> vs)"

text \<open>The hardware axis key of an iname, if its tag is a hardware-parallel one.\<close>

definition hw_key_of :: "kernel \<Rightarrow> iname \<Rightarrow> tag_key option" where
  "hw_key_of knl iname =
     (case map_of (iname_to_tag knl) iname of
        None \<Rightarrow> None
      | Some tag \<Rightarrow> if is_HardwareParallelTag tag then Some (key tag) else None)"

subsection \<open>Admissible inames\<close>

text \<open>
  A hardware-parallel tagged iname that the loop of \<open>get_admissible_conditional_inames_for\<close>
  adds at a position, and an iname that is sequential: untagged, or with a tag that is not
  a hardware-parallel one (unrolled, ILP, forced-sequential).
\<close>

definition hw_admissible :: "kernel \<Rightarrow> nat \<Rightarrow> iname \<Rightarrow> bool" where
  "hw_admissible knl sched_index iname =
     (case map_of (iname_to_tag knl) iname of
        None \<Rightarrow> False
      | Some tag \<Rightarrow>
          is_HardwareParallelTag tag \<and>
          \<not> (has_barrier_within knl sched_index \<and> is_LocalIndexTag tag))"

definition is_sequential :: "kernel \<Rightarrow> iname \<Rightarrow> bool" where
  "is_sequential knl iname =
     (case map_of (iname_to_tag knl) iname of
        None \<Rightarrow> True
      | Some tag \<Rightarrow> \<not> is_HardwareParallelTag tag)"

subsection \<open>Predicates of a leaf\<close>

text \<open>
  The predicate set a leaf contributes: empty for a barrier, the instruction's predicates
  for a RunInstruction whose instruction is known; \<open>None\<close> where the loop raises.
\<close>

fun leaf_predicates :: "kernel \<Rightarrow> sched_item \<Rightarrow> predicate list option" where
  "leaf_predicates knl (Barrier _ _) = Some []"
| "leaf_predicates knl (RunInstruction insn_id) = map_option predicates (id_to_insn knl insn_id)"
| "leaf_predicates knl _ = None"

subsection \<open>The sets of a candidate group\<close>




definition is_recorded :: "'c hoist \<Rightarrow> bool" where
  "is_recorded h =
     (case h of (k, bounds_checks, pred_set) \<Rightarrow>
        (case bounds_checks of Some cs \<Rightarrow> cs \<noteq> [] | None \<Rightarrow> False)
        \<or> bounds_checks = None \<or> pred_set \<noteq> [] \<or> k = 1)"

text \<open>
  What the spec's pseudo-code intersects: the admissible iname sets and the required
  predicate sets "of entries[0..candidate_length)", the latter less the implemented
  predicates; and the hoist option of that prefix. \<open>done_lengths_on_top\<close> says that no
  done length is smaller than a candidate length that is not done.
\<close>

definition prefix_iname_set :: "ScheduleIndexInfo list \<Rightarrow> nat \<Rightarrow> iname list" where
  "prefix_iname_set es k =
     fold (\<lambda>e acc. py_and acc (admissible_cond_inames e)) (take k es)
       (admissible_cond_inames (hd es))"

definition prefix_pred_set ::
  "'s codegen_state \<Rightarrow> ScheduleIndexInfo list \<Rightarrow> nat \<Rightarrow> predicate list" where
  "prefix_pred_set st es k =
     fold (\<lambda>e acc. py_and acc (required_predicates e)) (take k es)
       (py_sub (required_predicates (hd es)) (implemented_predicates st))"

definition prefix_hoist ::
  "('c, 's, 'a) collaborators \<Rightarrow> kernel \<Rightarrow> 's codegen_state \<Rightarrow> ScheduleIndexInfo list
     \<Rightarrow> nat \<Rightarrow> 'c hoist" where
  "prefix_hoist env knl st es k =
     (k,
      bounds_check_cache env knl (implemented_domain st)
        (remove_inames_for_shared_hw_axes knl
           (py_and (prefix_iname_set es k) (used_inames_of env knl (take k es)))),
      prefix_pred_set st es k)"

definition done_lengths_on_top :: "nat set \<Rightarrow> nat \<Rightarrow> bool" where
  "done_lengths_on_top dgl n = (\<forall>j\<in>dgl. \<forall>k. k \<le> n \<and> k \<notin> dgl \<longrightarrow> k < j)"

text \<open>
  The calls of \<open>build_insn_group\<close> that arise. \<open>build_loop_nest\<close> calls it with the default
  \<open>done_group_lengths=set()\<close> (line 376); every other call is one of the two recursive
  calls (lines 355 and 370) made by a call that arises. \<open>build_insn_group_rel\<close> relates the
  arguments of a recursive call to the arguments of the call that makes it.
\<close>

definition arises ::
  "('c, 's, 'a) collaborators \<Rightarrow> kernel \<Rightarrow> ScheduleIndexInfo list \<Rightarrow> 's codegen_state
     \<Rightarrow> nat set \<Rightarrow> bool" where
  "arises env knl es st dgl =
     (\<exists>es0 st0. rtranclp build_insn_group_rel (env, knl, es, st, dgl) (env, knl, es0, st0, {}))"

subsection \<open>Example inputs\<close>

text \<open>
  A stand-in for the collaborators, for concrete runs: sets and constraints are integer
  intervals, a bounds check for a non-empty iname set is \<open>0 \<le> i \<le> 9\<close>, an instruction uses the
  iname \<open>i\<close>, and the instruction generator emits one statement.
\<close>

definition interval_env :: "(int \<times> int, int \<times> int, string) collaborators" where
  "interval_env =
     \<lparr>find_used_inames_within =
        (\<lambda>knl sched_index.
           (case schedule knl ! sched_index of RunInstruction _ \<Rightarrow> [''i''] | _ \<Rightarrow> [])),
      get_bounds_checks = (\<lambda>knl impl_domain check_inames. Some [(0, 9)]),
      isl_universe_add_constraint = (\<lambda>cns. cns),
      isl_intersect = (\<lambda>a b. (max (fst a) (fst b), min (snd a) (snd b))),
      isl_is_empty = (\<lambda>s. snd s < fst s),
      generate_unroll_loop = (\<lambda>knl sched_index codegen_state. Inr None),
      generate_sequential_loop_dim_code = (\<lambda>knl sched_index codegen_state. Inr None),
      generate_instruction_code =
        (\<lambda>knl insn codegen_state. Inr (Some ''insn''))\<rparr>"

definition three_insns :: kernel where
  "three_insns =
     \<lparr>iname_to_tag = [],
      schedule = [RunInstruction ''a'', RunInstruction ''b'', RunInstruction ''c''],
      id_to_insn = [''a'' \<mapsto> \<lparr>predicates = [''p'']\<rparr>, ''b'' \<mapsto> \<lparr>predicates = []\<rparr>,
                    ''c'' \<mapsto> \<lparr>predicates = [''p'']\<rparr>]\<rparr>"

definition three_entries :: "ScheduleIndexInfo list" where
  "three_entries =
     [\<lparr>schedule_index = 0, admissible_cond_inames = [], required_predicates = [''p'']\<rparr>,
      \<lparr>schedule_index = 1, admissible_cond_inames = [], required_predicates = []\<rparr>,
      \<lparr>schedule_index = 2, admissible_cond_inames = [], required_predicates = [''p'']\<rparr>]"

definition initial_state :: "(int \<times> int) codegen_state" where
  "initial_state = \<lparr>implemented_domain = (-100, 100), implemented_predicates = []\<rparr>"

definition bounded_entries :: "ScheduleIndexInfo list" where
  "bounded_entries =
     [\<lparr>schedule_index = 0, admissible_cond_inames = [''i''], required_predicates = []\<rparr>,
      \<lparr>schedule_index = 1, admissible_cond_inames = [''i''], required_predicates = []\<rparr>,
      \<lparr>schedule_index = 2, admissible_cond_inames = [''i''], required_predicates = []\<rparr>]"

text \<open>A kernel with a barrier inside a loop, and a schedule that is one empty loop.\<close>

definition barrier_kernel :: kernel where
  "barrier_kernel =
     \<lparr>iname_to_tag = [(''j'', UnrollTag), (''l'', LocalIndexTag 0), (''g'', GroupIndexTag 0)],
      schedule = [RunInstruction ''a'', EnterLoop ''j'', RunInstruction ''b'',
                  Barrier ''local'' '''', LeaveLoop ''j''],
      id_to_insn = Map.empty\<rparr>"

definition empty_loop_kernel :: kernel where
  "empty_loop_kernel =
     \<lparr>iname_to_tag = [], schedule = [EnterLoop ''i'', LeaveLoop ''i''],
      id_to_insn = Map.empty\<rparr>"

subsection \<open>The code of a group and its guards\<close>

text \<open>
  What \<open>build_insn_group\<close> produces for the chosen group, before the code of the remainder
  is appended (lines 321 to 368): nothing if the combined check set is empty, else the code
  of the leaf or of the recursive call on the group, wrapped in a conditional if there is a
  bounds check or a predicate to check.
\<close>

definition group_code ::
  "('c, 's, 'a) collaborators \<Rightarrow> kernel \<Rightarrow> ScheduleIndexInfo list \<Rightarrow> 's codegen_state
     \<Rightarrow> nat set \<Rightarrow> 'c hoist \<Rightarrow> error + ('c, 'a) code list" where
  "group_code env knl es st dgl h =
     (case h of
        (g, None, pc) \<Rightarrow> Inl TypeError
      | (g, Some bcs, pc) \<Rightarrow>
          if check_set_is_empty env (combine_check_set env bcs None) then Inr []
          else
            case (if g = 1 then
                    (case generate_code_for_sched_index env knl (schedule_index (hd es))
                            (new_codegen_state env st (combine_check_set env bcs None) pc) of
                       Inl e \<Rightarrow> Inl e
                     | Inr None \<Rightarrow> Inr []
                     | Inr (Some c) \<Rightarrow> Inr [c])
                  else
                    build_insn_group env knl (take g es)
                      (new_codegen_state env st (combine_check_set env bcs None) pc)
                      (insert g dgl)) of
              Inl e \<Rightarrow> Inl e
            | Inr result \<Rightarrow>
                Inr (if bcs \<noteq> [] \<or> pc \<noteq> [] then
                       [WrapInIf (map ConstraintCode bcs @ map PredicateCode pc)
                          (GenCodeBlock result)]
                     else result))"




subsection \<open>Further example inputs\<close>

text \<open>
  Collaborators whose bounds checks contradict each other, three entries of which the first
  two share an iname, and a state that has \<open>q\<close> implemented.
\<close>

definition dead_env :: "(int \<times> int, int \<times> int, string) collaborators" where
  "dead_env =
     interval_env\<lparr>get_bounds_checks := (\<lambda>knl impl_domain check_inames. Some [(0, 9), (20, 30)])\<rparr>"

definition mixed_entries :: "ScheduleIndexInfo list" where
  "mixed_entries =
     [\<lparr>schedule_index = 0, admissible_cond_inames = [''i''], required_predicates = []\<rparr>,
      \<lparr>schedule_index = 1, admissible_cond_inames = [''i''], required_predicates = []\<rparr>,
      \<lparr>schedule_index = 2, admissible_cond_inames = [], required_predicates = []\<rparr>]"



section \<open>isl helpers (loopy.isl)\<close>

text \<open>
  A piecewise-affine expression is an object of the isl library. The helpers use two of its
  observations: \<open>get_pieces()\<close>, the list of its (set, affine expression) pieces, and
  \<open>get_aggregate_domain()\<close>. The types of sets and of affine expressions are left open.
\<close>

record ('set, 'aff) pw_aff =
  get_pieces :: "('set \<times> 'aff) list"
  get_aggregate_domain :: 'set

subsection \<open>pw\_aff\_to\_aff\<close>

text \<open>
  \<open>pw_aff_to_aff\<close> (lines 89 to 105). The first argument is the library's
  \<open>Aff.plain_is_equal\<close>. The assertion on the argument's class is its type here.
\<close>

definition pw_aff_to_aff ::
  "('aff \<Rightarrow> 'aff \<Rightarrow> bool) \<Rightarrow> ('set, 'aff) pw_aff \<Rightarrow> error + 'aff" where
  "pw_aff_to_aff plain_is_equal pw =
     (let pieces = get_pieces pw in
      if length pieces = 0 then Inl RuntimeError
      else if length pieces > 1 then
        (let first_aff = snd (pieces ! 0) in
         if list_ex (\<lambda>(_, other_aff). \<not> plain_is_equal first_aff other_aff) (tl pieces)
         then Inl NotImplementedError
         else Inr first_aff)
      else Inr (snd (pieces ! 0)))"

subsection \<open>static\_extremum\_of\_pw\_aff\<close>

text \<open>
  \<open>static_extremum_of_pw_aff\<close> (lines 142 to 156). \<open>is_cst\<close> is the library's
  \<open>Aff.is_cst\<close>, and \<open>set_method\<close> is \<open>PwAff.ge_set\<close> or \<open>PwAff.le_set\<close>: the part of
  the domain where the expression is at least (at most) the candidate. The loop returns at
  the first piece that passes both tests, which \<open>find\<close> selects; the error carries the word
  of the message (minimum or maximum).
\<close>

definition static_extremum_of_pw_aff ::
  "('aff \<Rightarrow> bool) \<Rightarrow> ('set, 'aff) pw_aff \<Rightarrow> bool
     \<Rightarrow> (('set, 'aff) pw_aff \<Rightarrow> 'aff \<Rightarrow> 'set) \<Rightarrow> string \<Rightarrow> error + 'aff" where
  "static_extremum_of_pw_aff is_cst pw constants_only set_method what =
     (let pieces = get_pieces pw in
      if length pieces = 1 then Inr (snd (pieces ! 0))
      else
        (let agg_domain = get_aggregate_domain pw in
         case find (\<lambda>(piece_set, candidate_aff).
                      \<not> (constants_only \<and> \<not> is_cst candidate_aff)
                      \<and> set_method pw candidate_aff = agg_domain) pieces of
           Some (piece_set, candidate_aff) \<Rightarrow> Inr candidate_aff
         | None \<Rightarrow> Inl (ValueError what)))"

definition static_min_of_pw_aff ::
  "('aff \<Rightarrow> bool) \<Rightarrow> (('set, 'aff) pw_aff \<Rightarrow> 'aff \<Rightarrow> 'set) \<Rightarrow> ('set, 'aff) pw_aff \<Rightarrow> bool
     \<Rightarrow> error + 'aff" where
  "static_min_of_pw_aff is_cst ge_set pw constants_only =
     static_extremum_of_pw_aff is_cst pw constants_only ge_set ''minimum''"

definition static_max_of_pw_aff ::
  "('aff \<Rightarrow> bool) \<Rightarrow> (('set, 'aff) pw_aff \<Rightarrow> 'aff \<Rightarrow> 'set) \<Rightarrow> ('set, 'aff) pw_aff \<Rightarrow> bool
     \<Rightarrow> error + 'aff" where
  "static_max_of_pw_aff is_cst le_set pw constants_only =
     static_extremum_of_pw_aff is_cst pw constants_only le_set ''maximum''"

subsection \<open>Example expressions\<close>

text \<open>
  Affine expressions \<open>a * i + b\<close> in one variable \<open>i\<close>, as the pair \<open>(a, b)\<close>, over sets of
  integers. Such an expression is constant when \<open>a\<close> is zero.
\<close>

type_synonym affine = "int \<times> int"

definition affine_is_cst :: "affine \<Rightarrow> bool" where
  "affine_is_cst a = (fst a = 0)"

text \<open>The expression \<open>{ [i] -> [(i)] : i >= 0 }\<close>: one piece, which is not constant.\<close>

definition identity_on_naturals :: "(int set, affine) pw_aff" where
  "identity_on_naturals =
     \<lparr>get_pieces = [({i. 0 \<le> i}, (1, 0))], get_aggregate_domain = {i. 0 \<le> i}\<rparr>"

text \<open>Expressions with no piece, with two equal pieces and with two different pieces.\<close>

definition no_pieces :: "(int set, affine) pw_aff" where
  "no_pieces = \<lparr>get_pieces = [], get_aggregate_domain = {}\<rparr>"

definition equal_pieces :: "(int set, affine) pw_aff" where
  "equal_pieces =
     \<lparr>get_pieces = [({i. i < 0}, (0, 7)), ({i. 0 \<le> i}, (0, 7))], get_aggregate_domain = UNIV\<rparr>"

definition distinct_pieces :: "(int set, affine) pw_aff" where
  "distinct_pieces =
     \<lparr>get_pieces = [({i. i < 0}, (0, 0)), ({i. 0 \<le> i}, (1, 0))], get_aggregate_domain = UNIV\<rparr>"

section \<open>The ISPC target (loopy.target.ispc)\<close>

subsection \<open>The expression mapper\<close>

text \<open>
  The index type of the kernel, as far as \<open>_get_index_ctype\<close> distinguishes it: the numpy
  types int32 and int64, and any other.
\<close>

datatype index_dtype = Int32 | Int64 | OtherDtype

text \<open>
  \<open>LoopyISPCCodeMapper._get_index_ctype\<close> (lines 40 to 46).
\<close>

definition get_index_ctype :: "index_dtype \<Rightarrow> error + string" where
  "get_index_ctype dtype =
     (if dtype = Int32 then Inr ''int32''
      else if dtype = Int64 then Inr ''int64''
      else Inl (ValueError ''unexpected index_type''))"

text \<open>
  \<open>LoopyISPCCodeMapper.map_local_hw_index\<close> (lines 51 to 55), of the index type of the
  mapper's kernel and the axis of the expression.
\<close>

definition map_local_hw_index :: "index_dtype \<Rightarrow> int \<Rightarrow> error + string" where
  "map_local_hw_index dtype axis =
     (if axis = 0 then
        (case get_index_ctype dtype of
           Inl e \<Rightarrow> Inl e
         | Inr ctype \<Rightarrow> Inr (''(varying '' @ ctype @ '') programIndex''))
      else Inl LoopyError)"

subsection \<open>Top-level code generation\<close>

text \<open>
  A grid size is an expression: an integer, or any other expression, which Python's \<open>!=\<close>
  tells apart from the integer 1.
\<close>

datatype size_expr = IntSize int | SymbolicSize string

text \<open>
  The two precedence levels that \<open>generate_code\<close> passes to the expression mapper.
\<close>

datatype prec = PREC_COMPARISON | PREC_NONE

text \<open>
  Declarators: those of the implemented arguments, and the four that the OCCA mode puts
  in front of them.
\<close>

datatype decl =
    Declarator string
  | ConstUniformIntArray string
  | ConstUniformInt string

record impl_arg =
  cgen_declarator :: decl
  arg_name :: string

text \<open>
  What \<open>generate_code\<close> reads of the kernel: its name and the grid sizes that
  \<open>kernel.get_grid_sizes_as_exprs()\<close> returns.
\<close>

record ispc_kernel =
  kernel_name :: string
  gsize :: "size_expr list"
  lsize :: "size_expr list"

text \<open>
  A function body: the name and the argument declarators of its declaration, and the
  body. The result of \<open>generate_code\<close> is the module of the kernel function and of its
  wrapper, kept as this pair and not printed to a string.
\<close>

record 'b function_body =
  fdecl_name :: string
  fdecl_arg_decls :: "decl list"
  fbody :: 'b

text \<open>
  Code of the repository and of libraries that is not among the sources:
  \<open>kernel.target.generate_body(kernel, codegen_state)\<close>, of which the result is given; the
  expression mapper \<open>ccm\<close> that \<open>get_expression_to_code_mapper\<close> returns, applied to a
  size and a precedence; and Python's \<open>%d\<close> formatting of a size into the message of the
  error, which itself fails on what is not a number.
\<close>

record ('b, 'd) ispc_collaborators =
  generate_body :: "error + 'b \<times> 'd"
  ccm :: "size_expr \<Rightarrow> prec \<Rightarrow> error + string"
  format_d :: "size_expr \<Rightarrow> error + string"

text \<open>
  The loop over the local sizes after the first (lines 215 to 219): the first size that
  is not 1 ends it with the error, or with the failure to build the error's message.
\<close>

fun check_local_sizes ::
  "('b, 'd) ispc_collaborators \<Rightarrow> size_expr list \<Rightarrow> error + unit" where
  "check_local_sizes env [] = Inr ()"
| "check_local_sizes env (ls_i # rest) =
     (if ls_i \<noteq> IntSize 1 then
        (case format_d env ls_i of Inl e \<Rightarrow> Inl e | Inr msg \<Rightarrow> Inl LoopyError)
      else check_local_sizes env rest)"

text \<open>
  The launch specification maps every global size to code (lines 230 to 232) and joins
  the results.
\<close>

fun ccm_all ::
  "('b, 'd) ispc_collaborators \<Rightarrow> size_expr list \<Rightarrow> error + string list" where
  "ccm_all env [] = Inr []"
| "ccm_all env (gs_i # rest) =
     (case ccm env gs_i PREC_NONE of
        Inl e \<Rightarrow> Inl e
      | Inr s \<Rightarrow> (case ccm_all env rest of Inl e \<Rightarrow> Inl e | Inr ss \<Rightarrow> Inr (s # ss)))"

fun join :: "string \<Rightarrow> string list \<Rightarrow> string" where
  "join sep [] = ''''"
| "join sep [x] = x"
| "join sep (x # y # rest) = x @ sep @ join sep (y # rest)"

text \<open>
  \<open>ISPCTarget.generate_code\<close> (lines 174 to 260), with the target's \<open>occa_mode\<close> as first
  argument.
\<close>

definition generate_code ::
  "bool \<Rightarrow> ('b, 'd) ispc_collaborators \<Rightarrow> ispc_kernel \<Rightarrow> impl_arg list
     \<Rightarrow> error + ('b function_body \<times> string list function_body) \<times> 'd" where
  "generate_code occa_mode env knl impl_arg_info =
     (case generate_body env of
        Inl e \<Rightarrow> Inl e
      | Inr (knl_body, implemented_domains) \<Rightarrow>
          (let inner_name = ''lp_ispc_inner_'' @ kernel_name knl;
               arg_decls0 = map cgen_declarator impl_arg_info;
               arg_names0 = map arg_name impl_arg_info;
               arg_decls =
                 (if occa_mode then
                    [ConstUniformIntArray ''loopy_dims'', ConstUniformInt ''o1'',
                     ConstUniformInt ''o2'', ConstUniformInt ''o3''] @ arg_decls0
                  else arg_decls0);
               arg_names =
                 (if occa_mode then [''loopy_dims'', ''o1'', ''o2'', ''o3''] @ arg_names0
                  else arg_names0);
               knl_fbody = \<lparr>fdecl_name = inner_name, fdecl_arg_decls = arg_decls,
                             fbody = knl_body\<rparr>
           in case (if length (lsize knl) > 1 then check_local_sizes env (tl (lsize knl))
                    else Inr ()) of
                Inl e \<Rightarrow> Inl e
              | Inr _ \<Rightarrow>
                  (case (if lsize knl \<noteq> [] then
                           (case ccm env (hd (lsize knl)) PREC_COMPARISON of
                              Inl e \<Rightarrow> Inl e
                            | Inr s \<Rightarrow> Inr [''assert(programCount == '' @ s @ '')''])
                         else Inr []) of
                     Inl e \<Rightarrow> Inl e
                   | Inr wrapper_body \<Rightarrow>
                       (case (if gsize knl \<noteq> [] then
                                (case ccm_all env (gsize knl) of
                                   Inl e \<Rightarrow> Inl e
                                 | Inr ss \<Rightarrow> Inr (''['' @ join '', '' ss @ '']''))
                              else Inr '''') of
                          Inl e \<Rightarrow> Inl e
                        | Inr launch_spec \<Rightarrow>
                            Inr ((knl_fbody,
                                  \<lparr>fdecl_name = kernel_name knl, fdecl_arg_decls = arg_decls,
                                   fbody = wrapper_body @
                                     [''launch'' @ launch_spec @ '' '' @ inner_name @ ''(''
                                        @ join '', '' arg_names @ '')'']\<rparr>),
                                 implemented_domains)))))"

text \<open>
  A result that is an exception.
\<close>

definition is_error :: "error + 'a \<Rightarrow> bool" where
  "is_error r = (case r of Inl e \<Rightarrow> True | Inr v \<Rightarrow> False)"

subsection \<open>Example kernels\<close>

text \<open>
  A body generator and an expression mapper that succeed, and kernels with local sizes
  \<open>(8, 4)\<close> and \<open>(8,)\<close> on a grid of \<open>n\<close> groups.
\<close>

definition example_ispc_env :: "(string, unit) ispc_collaborators" where
  "example_ispc_env =
     \<lparr>generate_body = Inr (''body'', ()),
      ccm = (\<lambda>s p. case s of IntSize n \<Rightarrow> Inr (if n = 8 then ''8'' else ''n'')
                            | SymbolicSize v \<Rightarrow> Inr v),
      format_d = (\<lambda>s. case s of IntSize n \<Rightarrow> Inr ''n'' | SymbolicSize v \<Rightarrow> Inl TypeError)\<rparr>"

definition two_local_axes :: ispc_kernel where
  "two_local_axes = \<lparr>kernel_name = ''knl'', gsize = [SymbolicSize ''n''],
                      lsize = [IntSize 8, IntSize 4]\<rparr>"

definition one_local_axis :: ispc_kernel where
  "one_local_axis = \<lparr>kernel_name = ''knl'', gsize = [SymbolicSize ''n''],
                      lsize = [IntSize 8]\<rparr>"

section \<open>Properties of the admissibility analysis\<close>

subsection \<open>Shared hardware axes\<close>

lemma lookup_uses_Nil: "lookup_uses [] k = []"
  by (simp add: lookup_uses_def)

lemma lookup_setdefault_append:
  "lookup_uses (setdefault_append k v d) k' =
     (if k' = k then lookup_uses d k @ [v] else lookup_uses d k')"
  by (auto simp: lookup_uses_def setdefault_append_def update_conv' map_of_append
           split: option.splits)

lemma distinct_setdefault_append:
  "distinct (map fst d) \<Longrightarrow> distinct (map fst (setdefault_append k v d))"
  by (auto simp: setdefault_append_def distinct_update map_of_eq_None_iff split: option.splits)

lemma note_tag_key_use_hw:
  "note_tag_key_use knl x d =
     (case hw_key_of knl x of None \<Rightarrow> d | Some k \<Rightarrow> setdefault_append k x d)"
  by (cases "map_of (iname_to_tag knl) x") (simp_all add: note_tag_key_use_def hw_key_of_def)

lemma note_multi_use_iname_hw:
  "note_multi_use_iname knl mk x acc =
     (case hw_key_of knl x of
        None \<Rightarrow> acc
      | Some k \<Rightarrow> if k \<in> set mk then py_add x acc else acc)"
  by (cases "map_of (iname_to_tag knl) x")
     (simp_all add: note_multi_use_iname_def hw_key_of_def)

lemma lookup_note:
  "lookup_uses (note_tag_key_use knl x d) k =
     lookup_uses d k @ (if hw_key_of knl x = Some k then [x] else [])"
  by (simp add: note_tag_key_use_hw lookup_setdefault_append split: option.splits)

lemma lookup_fold_note:
  "lookup_uses (fold (note_tag_key_use knl) xs d) k =
     lookup_uses d k @ filter (\<lambda>i. hw_key_of knl i = Some k) xs"
  by (induction xs arbitrary: d) (simp_all add: lookup_note)

lemma distinct_note:
  "distinct (map fst d) \<Longrightarrow> distinct (map fst (note_tag_key_use knl x d))"
  by (simp add: note_tag_key_use_hw distinct_setdefault_append split: option.splits)

lemma distinct_fold_note:
  "distinct (map fst d) \<Longrightarrow> distinct (map fst (fold (note_tag_key_use knl) xs d))"
  by (induction xs arbitrary: d) (simp_all add: distinct_note)

lemma multi_use_keys_iff:
  assumes "distinct (map fst d)"
  shows "k \<in> set (multi_use_keys_of d) \<longleftrightarrow> length (lookup_uses d k) > 1"
proof
  assume "k \<in> set (multi_use_keys_of d)"
  then obtain us where "(k, us) \<in> set d" "length us > 1"
    by (auto simp: multi_use_keys_of_def)
  with assms have "map_of d k = Some us" by simp
  with \<open>length us > 1\<close> show "length (lookup_uses d k) > 1" by (simp add: lookup_uses_def)
next
  assume "length (lookup_uses d k) > 1"
  then obtain us where "map_of d k = Some us" "length us > 1"
    by (auto simp: lookup_uses_def split: option.splits)
  then have "(k, us) \<in> set d" by (simp add: map_of_SomeD)
  with \<open>length us > 1\<close> show "k \<in> set (multi_use_keys_of d)"
    by (force simp: multi_use_keys_of_def)
qed

lemma set_note_multi:
  "set (note_multi_use_iname knl mk x acc) =
     set acc \<union> (if \<exists>k. hw_key_of knl x = Some k \<and> k \<in> set mk then {x} else {})"
  by (auto simp: note_multi_use_iname_hw py_add_def split: option.splits)

lemma set_fold_note_multi:
  "set (fold (note_multi_use_iname knl mk) xs acc) =
     set acc \<union> {i \<in> set xs. \<exists>k. hw_key_of knl i = Some k \<and> k \<in> set mk}"
proof (induction xs arbitrary: acc)
  case Nil then show ?case by simp
next
  case (Cons x xs)
  show ?case by (simp add: Cons.IH set_note_multi) blast
qed

text \<open>In a list without repetitions, a filter keeps two or more elements exactly when
  two different elements pass it.\<close>

lemma length_filter_gt1:
  assumes "distinct xs"
  shows "length (filter P xs) > 1 \<longleftrightarrow> (\<exists>i\<in>set xs. \<exists>j\<in>set xs. i \<noteq> j \<and> P i \<and> P j)"
proof
  assume "length (filter P xs) > 1"
  then obtain a b rest where ab: "filter P xs = a # b # rest"
    by (cases "filter P xs"; cases "tl (filter P xs)") auto
  from assms have "distinct (filter P xs)" by simp
  with ab have "a \<noteq> b" by simp
  moreover from ab have "a \<in> set (filter P xs)" "b \<in> set (filter P xs)" by simp_all
  ultimately show "\<exists>i\<in>set xs. \<exists>j\<in>set xs. i \<noteq> j \<and> P i \<and> P j" by auto
next
  assume "\<exists>i\<in>set xs. \<exists>j\<in>set xs. i \<noteq> j \<and> P i \<and> P j"
  then obtain i j where ij: "i \<in> set (filter P xs)" "j \<in> set (filter P xs)" "i \<noteq> j" by auto
  then have "{i, j} \<subseteq> set (filter P xs)" by simp
  then have "card {i, j} \<le> card (set (filter P xs))" by (intro card_mono) simp_all
  with ij have "2 \<le> card (set (filter P xs))" by simp
  also have "\<dots> \<le> length (filter P xs)" by (rule card_length)
  finally show "length (filter P xs) > 1" by simp
qed

lemma shares_hw_axis_iff:
  "shares_hw_axis knl xs i \<longleftrightarrow>
     (\<exists>k. hw_key_of knl i = Some k \<and> (\<exists>j\<in>set xs. j \<noteq> i \<and> hw_key_of knl j = Some k))"
proof (cases "map_of (iname_to_tag knl) i")
  case None
  then show ?thesis by (simp add: shares_hw_axis_def hw_key_of_def)
next
  case (Some t)
  have inner: "(case map_of (iname_to_tag knl) j of None \<Rightarrow> False
          | Some tag' \<Rightarrow> is_HardwareParallelTag tag' \<and> key tag' = key t) \<longleftrightarrow>
        hw_key_of knl j = Some (key t)" for j
    by (cases "map_of (iname_to_tag knl) j") (simp_all add: hw_key_of_def)
  show ?thesis
    using Some by (auto simp: shares_hw_axis_def hw_key_of_def[of knl i] list_ex_iff inner)
qed

lemma multi_use_inames_set:
  assumes "distinct xs"
  shows "set (fold (note_multi_use_iname knl
                 (multi_use_keys_of (fold (note_tag_key_use knl) xs []))) xs []) =
         {i \<in> set xs. shares_hw_axis knl xs i}"
proof -
  have d: "distinct (map fst (fold (note_tag_key_use knl) xs []))"
    by (rule distinct_fold_note) simp
  have mk: "k \<in> set (multi_use_keys_of (fold (note_tag_key_use knl) xs [])) \<longleftrightarrow>
        (\<exists>i\<in>set xs. \<exists>j\<in>set xs. i \<noteq> j \<and> hw_key_of knl i = Some k \<and> hw_key_of knl j = Some k)"
    for k
    by (simp add: multi_use_keys_iff [OF d] lookup_fold_note lookup_uses_Nil
          length_filter_gt1 [OF assms] del: One_nat_def)
  show ?thesis
    unfolding set_fold_note_multi mk shares_hw_axis_iff by auto metis
qed

text \<open>
  Claim C4. For every input set of inames (a list without repetitions),
  \<open>remove_inames_for_shared_hw_axes\<close> removes exactly the inames whose hardware-parallel tag key
  is the key of another iname of the input, and returns every other iname unchanged (and in
  place); inames without a hardware-parallel tag are all kept; the result is a subset of the
  input.
\<close>

theorem remove_inames_for_shared_hw_axes_spec:
  assumes "distinct cond_inames"
  shows "remove_inames_for_shared_hw_axes knl cond_inames =
           filter (\<lambda>i. \<not> shares_hw_axis knl cond_inames i) cond_inames
         \<and> set (remove_inames_for_shared_hw_axes knl cond_inames) =
             set cond_inames - {i. shares_hw_axis knl cond_inames i}
         \<and> (\<forall>i \<in> set cond_inames. hw_key_of knl i = None
               \<longrightarrow> i \<in> set (remove_inames_for_shared_hw_axes knl cond_inames))
         \<and> set (remove_inames_for_shared_hw_axes knl cond_inames) \<subseteq> set cond_inames"
proof -
  have eq: "remove_inames_for_shared_hw_axes knl cond_inames =
           filter (\<lambda>i. \<not> shares_hw_axis knl cond_inames i) cond_inames"
    unfolding remove_inames_for_shared_hw_axes_def Let_def py_sub_def
      multi_use_inames_set [OF assms]
    by (rule filter_cong) auto
  have keep: "hw_key_of knl i = None \<Longrightarrow> \<not> shares_hw_axis knl cond_inames i" for i
    by (simp add: shares_hw_axis_iff)
  show ?thesis
    unfolding eq using keep by auto
qed

theorem remove_inames_for_shared_hw_axes_witness:
  "distinct [''i'', ''j'', ''k'', ''m'', ''n'']
   \<and> remove_inames_for_shared_hw_axes
       \<lparr>iname_to_tag = [(''i'', LocalIndexTag 0), (''j'', LocalIndexTag 0),
                        (''k'', GroupIndexTag 0), (''m'', UnrollTag)],
        schedule = [], id_to_insn = Map.empty\<rparr>
       [''i'', ''j'', ''k'', ''m'', ''n''] = [''k'', ''m'', ''n'']"
proof -
  have d: "distinct [''i'', ''j'', ''k'', ''m'', ''n'']" by simp
  show ?thesis
    using remove_inames_for_shared_hw_axes_spec [OF d,
        of "\<lparr>iname_to_tag = [(''i'', LocalIndexTag 0), (''j'', LocalIndexTag 0),
                        (''k'', GroupIndexTag 0), (''m'', UnrollTag)],
        schedule = [], id_to_insn = Map.empty\<rparr>"]
    by (simp add: shares_hw_axis_def)
qed

subsection \<open>Admissible conditional inames\<close>

lemma set_admit_iname:
  "set (admit_iname hb (i, t) result) =
     set result \<union> (if is_HardwareParallelTag t \<and> \<not> (hb \<and> is_LocalIndexTag t) then {i} else {})"
  by (auto simp: admit_iname_def py_add_def)

lemma set_fold_admit_iname:
  "set (fold (admit_iname hb) its result) =
     set result \<union> {i. \<exists>t. (i, t) \<in> set its \<and> is_HardwareParallelTag t \<and> \<not> (hb \<and> is_LocalIndexTag t)}"
proof (induction its arbitrary: result)
  case Nil then show ?case by simp
next
  case (Cons it its)
  obtain i t where it: "it = (i, t)" by (cases it)
  show ?case unfolding it by (simp add: Cons.IH set_admit_iname) blast
qed

lemma set_get_admissible:
  assumes "distinct (map fst (iname_to_tag knl))"
  shows "set (get_admissible_conditional_inames_for knl sched_index) =
           set (find_active_inames_at knl sched_index) \<union> {i. hw_admissible knl sched_index i}"
proof -
  have "(\<exists>t. (i, t) \<in> set (iname_to_tag knl) \<and> is_HardwareParallelTag t
              \<and> \<not> (has_barrier_within knl sched_index \<and> is_LocalIndexTag t))
        \<longleftrightarrow> hw_admissible knl sched_index i" for i
    by (cases "map_of (iname_to_tag knl) i")
       (auto simp: hw_admissible_def map_of_eq_Some_iff [OF assms, symmetric])
  then show ?thesis
    by (simp add: get_admissible_conditional_inames_for_def Let_def set_fold_admit_iname)
qed

text \<open>
  Claim C3, as amended. \<open>get_admissible_conditional_inames_for\<close> returns the inames active at
  \<open>sched_index\<close> together with every hardware-parallel tagged iname of the kernel, except that a
  local-index tagged iname is not added when a barrier occurs within the subtree at
  \<open>sched_index\<close>; an iname with a group-index tag is always in the result; and a sequential
  iname is in the result exactly when it is active at \<open>sched_index\<close>, whether or not a barrier
  occurs.
\<close>

theorem get_admissible_conditional_inames_for_spec:
  assumes "distinct (map fst (iname_to_tag knl))"
  shows "set (get_admissible_conditional_inames_for knl sched_index) =
           set (find_active_inames_at knl sched_index) \<union> {i. hw_admissible knl sched_index i}
       \<and> (\<forall>i axis. map_of (iname_to_tag knl) i = Some (GroupIndexTag axis)
             \<longrightarrow> i \<in> set (get_admissible_conditional_inames_for knl sched_index))
       \<and> (\<forall>i. is_sequential knl i \<longrightarrow>
             (i \<in> set (get_admissible_conditional_inames_for knl sched_index)
                \<longleftrightarrow> i \<in> set (find_active_inames_at knl sched_index)))"
  unfolding set_get_admissible [OF assms]
  by (auto simp: hw_admissible_def is_sequential_def split: option.splits)

theorem get_admissible_conditional_inames_for_witness:
  "distinct (map fst (iname_to_tag barrier_kernel))
   \<and> ''g'' \<in> set (get_admissible_conditional_inames_for barrier_kernel 3)
   \<and> ''j'' \<in> set (get_admissible_conditional_inames_for barrier_kernel 3)
   \<and> ''l'' \<notin> set (get_admissible_conditional_inames_for barrier_kernel 3)
   \<and> ''l'' \<in> set (get_admissible_conditional_inames_for barrier_kernel 2)"
proof -
  have d: "distinct (map fst (iname_to_tag barrier_kernel))"
    by (simp add: barrier_kernel_def)
  have at3: "find_active_inames_at barrier_kernel 3 = [''j'']"
       "has_barrier_within barrier_kernel 3"
       "find_active_inames_at barrier_kernel 2 = [''j'']"
       "\<not> has_barrier_within barrier_kernel 2"
    by (simp_all add: barrier_kernel_def find_active_inames_at_def has_barrier_within_def
          subtree_at_def py_add_def)
  have tags: "map_of (iname_to_tag barrier_kernel) ''g'' = Some (GroupIndexTag 0)"
             "map_of (iname_to_tag barrier_kernel) ''l'' = Some (LocalIndexTag 0)"
             "map_of (iname_to_tag barrier_kernel) ''j'' = Some UnrollTag"
    by (simp_all add: barrier_kernel_def)
  show ?thesis
    using d get_admissible_conditional_inames_for_spec [OF d, of 3]
      get_admissible_conditional_inames_for_spec [OF d, of 2]
    by (simp add: at3 tags hw_admissible_def)
qed

text \<open>
  The claim as stated fails where it says that sequential inames are always admissible:
  in \<open>barrier_kernel\<close> the iname \<open>j\<close> is tagged for unrolling, and at position 0, outside the
  loop over \<open>j\<close>, it is not admissible.
\<close>

theorem sequential_iname_not_always_admissible:
  "is_sequential barrier_kernel ''j''
   \<and> map_of (iname_to_tag barrier_kernel) ''j'' = Some UnrollTag
   \<and> ''j'' \<notin> set (get_admissible_conditional_inames_for barrier_kernel 0)"
  by (simp add: barrier_kernel_def is_sequential_def get_admissible_conditional_inames_for_def
      find_active_inames_at_def has_barrier_within_def subtree_at_def admit_iname_def py_add_def)

subsection \<open>Required predicates\<close>

text \<open>
  Where the subtree has a leaf, and every leaf is a barrier or a known instruction, the
  result is the intersection of the leaves' predicate sets.
\<close>

lemma required_predicates_loop_Some:
  assumes "\<forall>it \<in> set items. leaf_predicates knl (snd it) \<noteq> None"
  shows "\<exists>ps. required_predicates_loop knl items (Some acc) = Inr (Some ps)
            \<and> set ps = set acc \<inter> (\<Inter>it \<in> set items. set (the (leaf_predicates knl (snd it))))"
  using assms
proof (induction items arbitrary: acc)
  case Nil
  then show ?case by simp
next
  case (Cons it items)
  obtain i item where it: "it = (i, item)" by (cases it)
  from Cons.prems it obtain my where my: "leaf_predicates knl item = Some my" by auto
  from Cons.prems have rest: "\<forall>it \<in> set items. leaf_predicates knl (snd it) \<noteq> None" by simp
  from Cons.IH [OF rest, of "py_and acc my"] obtain ps where
    ps: "required_predicates_loop knl items (Some (py_and acc my)) = Inr (Some ps)"
        "set ps = set (py_and acc my) \<inter> (\<Inter>it \<in> set items. set (the (leaf_predicates knl (snd it))))"
    by blast
  have step: "required_predicates_loop knl (it # items) (Some acc) =
        required_predicates_loop knl items (Some (py_and acc my))"
    using my unfolding it by (cases item) (auto split: option.splits)
  show ?case
    unfolding step using ps my it by (auto simp: py_and_def)
qed

lemma get_required_predicates_nonempty:
  assumes "generate_sub_sched_items (schedule knl) sched_index \<noteq> []"
    and "\<forall>it \<in> set (generate_sub_sched_items (schedule knl) sched_index).
           leaf_predicates knl (snd it) \<noteq> None"
  shows "\<exists>ps. get_required_predicates knl sched_index = Inr (Some ps)
            \<and> set ps = (\<Inter>it \<in> set (generate_sub_sched_items (schedule knl) sched_index).
                          set (the (leaf_predicates knl (snd it))))"
proof -
  from assms(1) obtain it items where
    items: "generate_sub_sched_items (schedule knl) sched_index = it # items"
    by (cases "generate_sub_sched_items (schedule knl) sched_index") auto
  obtain i item where it: "it = (i, item)" by (cases it)
  from assms(2) items it obtain my where my: "leaf_predicates knl item = Some my" by auto
  from assms(2) items have rest: "\<forall>it \<in> set items. leaf_predicates knl (snd it) \<noteq> None" by simp
  have step: "required_predicates_loop knl (it # items) None =
        required_predicates_loop knl items (Some my)"
    using my unfolding it by (cases item) (auto split: option.splits)
  from required_predicates_loop_Some [OF rest, of my] obtain ps where
    "required_predicates_loop knl items (Some my) = Inr (Some ps)"
    "set ps = set my \<inter> (\<Inter>it \<in> set items. set (the (leaf_predicates knl (snd it))))"
    by blast
  then show ?thesis
    unfolding get_required_predicates_def items step using my it by auto
qed

text \<open>
  Claim C5 says that for a subtree with no leaves \<open>get_required_predicates\<close> returns the
  empty set. The loop body never runs there, and the function returns the \<open>None\<close> that
  \<open>result\<close> was initialised with: for the schedule that is one empty loop, at position 0.
\<close>

theorem get_required_predicates_empty_subtree:
  "generate_sub_sched_items (schedule empty_loop_kernel) 0 = []
   \<and> get_required_predicates empty_loop_kernel 0 = Inr None
   \<and> get_required_predicates empty_loop_kernel 0 \<noteq> Inr (Some [])"
  by (simp add: empty_loop_kernel_def get_required_predicates_def generate_sub_sched_items_def
      subtree_at_def)

section \<open>Properties of the builder\<close>

subsection \<open>Termination\<close>

declare grow_group.simps [simp del]

lemma grow_group_member:
  "h \<in> set (grow_group env knl st es dgl k cis cps found) \<Longrightarrow>
     h \<in> set found \<or> (k \<le> fst h \<and> fst h \<le> length es \<and> fst h \<notin> dgl)"
proof (induction env knl st es dgl k cis cps found rule: grow_group.induct)
  case (1 env knl st es dgl k cis cps found)
  show ?case
  proof (cases "k \<le> length es")
    case False
    with "1.prems" show ?thesis by (simp add: grow_group.simps [of _ _ _ _ _ k])
  next
    case le: True
    show ?thesis
    proof (cases "k \<in> dgl")
      case True
      with le "1.prems" have "h \<in> set (grow_group env knl st es dgl (k + 1) cis cps found)"
        by (simp add: grow_group.simps [of _ _ _ _ _ k])
      from "1.IH"(1) [OF le True this] show ?thesis by auto
    next
      case False
      from "1.prems" le False "1.IH"(2) [OF le False refl refl refl refl refl]
      show ?thesis
        by (auto simp: grow_group.simps [of _ _ _ _ _ k] Let_def split: if_splits)
    qed
  qed
qed

lemma py_max_member: "py_max hs = Inr h \<Longrightarrow> h \<in> set hs"
proof -
  have "fold (\<lambda>x m. if fst m < fst x then x else m) xs m \<in> insert m (set xs)"
    for xs :: "'a hoist list" and m
    by (induction xs arbitrary: m) auto
  then show "py_max hs = Inr h \<Longrightarrow> h \<in> set hs"
    by (cases hs) auto
qed

lemma chosen_group_length:
  assumes "py_max (found_hoists_of env knl es st dgl) = Inr (g, bc, pc)"
  shows "1 \<le> g \<and> g \<le> length es \<and> g \<notin> dgl"
  using grow_group_member [OF py_max_member [OF assms [unfolded found_hoists_of_def]]]
  by simp

lemma card_done_decreases:
  assumes "1 \<le> g" "g \<le> (n::nat)" "g \<notin> dgl"
  shows "card ({1..n} - insert g dgl) < card ({1..n} - dgl)"
proof -
  have mem: "g \<in> {1..n} - dgl"
    using assms by simp
  have eq: "{1..n} - insert g dgl = ({1..n} - dgl) - {g}"
    by blast
  have "finite ({1..n} - dgl)"
    by simp
  then show ?thesis
    unfolding eq using mem by (rule card_Diff1_less)
qed

lemma inner_call_decreases:
  assumes "py_max (found_hoists_of env knl es st dgl) = Inr (g, bc, pc)"
  shows "((env, knl, take g es, st', insert g dgl), (env, knl, es, st, dgl))
           \<in> measures [\<lambda>(env, knl, es, st, dgl). length es,
                         \<lambda>(env, knl, es, st, dgl). card ({1..length es} - dgl)]"
proof -
  from chosen_group_length [OF assms] have g: "1 \<le> g" "g \<le> length es" "g \<notin> dgl"
    by simp_all
  show ?thesis
  proof (cases "g < length es")
    case True
    then show ?thesis by simp
  next
    case False
    with g have eq: "g = length es" by simp
    from card_done_decreases [OF g] eq show ?thesis by simp
  qed
qed

lemma tail_call_decreases:
  assumes "es \<noteq> []" and "py_max (found_hoists_of env knl es st dgl) = Inr (g, bc, pc)"
  shows "((env, knl, drop g es, st', {}), (env, knl, es, st, dgl))
           \<in> measures [\<lambda>(env, knl, es, st, dgl). length es,
                         \<lambda>(env, knl, es, st, dgl). card ({1..length es} - dgl)]"
proof -
  from chosen_group_length [OF assms(2)] have "1 \<le> g" by simp
  with assms(1) show ?thesis by simp
qed

lemma build_insn_group_total: "All build_insn_group_dom"
proof (relation "measures [\<lambda>(env, knl, es, st, dgl). length es,
                           \<lambda>(env, knl, es, st, dgl). card ({1..length es} - dgl)]",
       goal_cases)
  case 1
  show ?case by simp
next
  case (2 env knl es st dgl b g y xa pc bcs)
  from 2(2,3,4,5) have "py_max (found_hoists_of env knl es st dgl) = Inr (g, Some bcs, pc)"
    by auto
  then show ?case by (rule inner_call_decreases)
next
  case (3 env knl es st dgl b g y xa pc bcs ba)
  from 3(2,3,4,5) have "py_max (found_hoists_of env knl es st dgl) = Inr (g, Some bcs, pc)"
    by auto
  with 3(1) show ?case by (rule tail_call_decreases)
qed

termination build_insn_group
  by (rule build_insn_group_total)

subsection \<open>The calls that arise\<close>

lemma build_insn_group_call_cases:
  assumes "build_insn_group_rel (env', knl', es', st', dgl') (env, knl, es, st, dgl)"
  shows "\<exists>g bc pc. es \<noteq> [] \<and> py_max (found_hoists_of env knl es st dgl) = Inr (g, bc, pc)
           \<and> ((es' = take g es \<and> dgl' = insert g dgl \<and> g \<noteq> 1) \<or> (es' = drop g es \<and> dgl' = {}))"
  using assms
  by (cases rule: build_insn_group_rel.cases) auto

text \<open>
  In every call that arises, each done length is at least the number of entries, and 1 is
  not done: the call on a group of length \<open>g\<close> has \<open>g\<close> entries and adds \<open>g\<close>, which is
  not 1, to done lengths that were at least the caller's number of entries; the call on
  the remainder starts from the empty set.
\<close>

lemma done_lengths_of_calls:
  assumes "rtranclp build_insn_group_rel c c0"
    and "snd (snd (snd (snd c0))) = {}"
  shows "(\<forall>j \<in> snd (snd (snd (snd c))). length (fst (snd (snd c))) \<le> j)
       \<and> 1 \<notin> snd (snd (snd (snd c)))"
  using assms
proof (induction rule: converse_rtranclp_induct)
  case base
  then show ?case by simp
next
  case (step c' c)
  obtain env' knl' es' st' dgl' where c': "c' = (env', knl', es', st', dgl')"
    by (cases c') auto
  obtain env knl es st dgl where c: "c = (env, knl, es, st, dgl)"
    by (cases c) auto
  from step.IH [OF step.prems] have inv: "\<forall>j \<in> dgl. length es \<le> j" "1 \<notin> dgl"
    by (simp_all add: c)
  from build_insn_group_call_cases [OF step.hyps(1) [unfolded c c']] obtain g bc pc where
    chosen: "py_max (found_hoists_of env knl es st dgl) = Inr (g, bc, pc)"
    and call: "(es' = take g es \<and> dgl' = insert g dgl \<and> g \<noteq> 1) \<or> (es' = drop g es \<and> dgl' = {})"
    by blast
  from chosen_group_length [OF chosen] have g: "g \<le> length es" by simp
  from call show ?case
  proof
    assume "es' = take g es \<and> dgl' = insert g dgl \<and> g \<noteq> 1"
    with g inv show ?thesis unfolding c' by auto
  next
    assume "es' = drop g es \<and> dgl' = {}"
    then show ?thesis unfolding c' by simp
  qed
qed

lemma arises_done_lengths:
  assumes "arises env knl es st dgl"
  shows "(\<forall>j \<in> dgl. length es \<le> j) \<and> 1 \<notin> dgl"
proof -
  from assms obtain es0 st0 where
    "rtranclp build_insn_group_rel (env, knl, es, st, dgl) (env, knl, es0, st0, {})"
    unfolding arises_def by blast
  from done_lengths_of_calls [OF this] show ?thesis by simp
qed

lemma arises_done_lengths_on_top:
  assumes "arises env knl es st dgl"
  shows "done_lengths_on_top dgl (length es)"
  using arises_done_lengths [OF assms] unfolding done_lengths_on_top_def
  by (metis le_neq_implies_less le_trans)



subsection \<open>The hoist options\<close>






lemma set_prefix_iname_set:
  "set (prefix_iname_set es k) =
     set (admissible_cond_inames (hd es)) \<inter> (\<Inter>e\<in>set (take k es). set (admissible_cond_inames e))"
proof -
  have "set (fold (\<lambda>e acc. py_and acc (admissible_cond_inames e)) xs a) =
          set a \<inter> (\<Inter>e\<in>set xs. set (admissible_cond_inames e))" for xs a
    by (induction xs arbitrary: a) (auto simp: py_and_def)
  then show ?thesis by (simp add: prefix_iname_set_def)
qed













text \<open>
  The loop skips a done length before it updates its two running intersections. Were a
  done length below a candidate length that is not done, which no call that arises has,
  the entry at the done length would be left out of the sets of the longer candidates:
  with \<open>done_group_lengths = {2}\<close> and three entries that require \<open>{p}\<close>, \<open>{}\<close> and \<open>{p}\<close>,
  the loop still holds \<open>{p}\<close> at length 3 and records an option, while the prefix of length
  3 has no common predicate and no bounds check.
\<close>

lemma found_hoists_done_length_below_candidate:
  "\<not> done_lengths_on_top {2} (length three_entries)
   \<and> \<not> arises interval_env three_insns three_entries initial_state {2}
   \<and> found_hoists_of interval_env three_insns three_entries initial_state {2} =
       [(1, Some [], [''p'']), (3, Some [], [''p''])]
   \<and> map (prefix_hoist interval_env three_insns initial_state three_entries)
       (filter (\<lambda>k. k \<notin> {2} \<and>
                 is_recorded (prefix_hoist interval_env three_insns initial_state
                                three_entries k))
          [1 ..< Suc (length three_entries)]) =
       [(1, Some [], [''p''])]"
proof -
  have len: "length three_entries = 3" by (simp add: three_entries_def)
  have a: "\<not> done_lengths_on_top {2} (length three_entries)"
    unfolding len done_lengths_on_top_def by (simp add: exI [of _ 3])
  have a': "\<not> arises interval_env three_insns three_entries initial_state {2}"
    using arises_done_lengths_on_top a by blast
  have b: "found_hoists_of interval_env three_insns three_entries initial_state {2} =
       [(1, Some [], [''p'']), (3, Some [], [''p''])]"
    by code_simp
  have c: "map (prefix_hoist interval_env three_insns initial_state three_entries)
       (filter (\<lambda>k. k \<notin> {2} \<and>
                 is_recorded (prefix_hoist interval_env three_insns initial_state
                                three_entries k))
          [1 ..< Suc (length three_entries)]) =
       [(1, Some [], [''p''])]"
    by code_simp
  show ?thesis using a a' b c by simp
qed

subsection \<open>Termination of the recursion\<close>

text \<open>
  Claim C6. \<open>build_insn_group\<close> terminates for every list of sibling entries and every
  \<open>done_group_lengths\<close>: every argument is in the accessible part of the relation of its
  recursive calls. Each recursive call is made for the chosen group length \<open>g\<close>, which is at
  least 1, at most the number of entries and not in \<open>done_group_lengths\<close>, and either has
  strictly fewer entries (the remainder after the group, or a proper prefix) or has the same
  entries and a \<open>done_group_lengths\<close> strictly grown by a length within the number of
  entries, so that fewer candidate lengths remain.
\<close>

theorem build_insn_group_terminates:
  "build_insn_group_dom (env, knl, es, st, dgl)
   \<and> (\<forall>env' knl' es' st' dgl'.
         build_insn_group_rel (env', knl', es', st', dgl') (env, knl, es, st, dgl) \<longrightarrow>
           (\<exists>g bc pc. py_max (found_hoists_of env knl es st dgl) = Inr (g, bc, pc)
               \<and> 1 \<le> g \<and> g \<le> length es \<and> g \<notin> dgl
               \<and> ((es' = take g es \<and> dgl' = insert g dgl) \<or> (es' = drop g es \<and> dgl' = {})))
           \<and> (length es' < length es
                \<or> (es' = es \<and> dgl \<subset> dgl' \<and> dgl' \<subseteq> dgl \<union> {1..length es}
                    \<and> card ({1..length es} - dgl') < card ({1..length es} - dgl))))"
proof (intro conjI allI impI)
  show "build_insn_group_dom (env, knl, es, st, dgl)"
    using build_insn_group_total by (rule spec)
next
  fix env' knl' es' st' dgl'
  assume rel: "build_insn_group_rel (env', knl', es', st', dgl') (env, knl, es, st, dgl)"
  from build_insn_group_call_cases [OF rel] obtain g bc pc where
    ne: "es \<noteq> []" and chosen: "py_max (found_hoists_of env knl es st dgl) = Inr (g, bc, pc)"
    and call: "(es' = take g es \<and> dgl' = insert g dgl \<and> g \<noteq> 1) \<or> (es' = drop g es \<and> dgl' = {})"
    by blast
  from chosen_group_length [OF chosen] have g: "1 \<le> g" "g \<le> length es" "g \<notin> dgl"
    by simp_all
  show "\<exists>g bc pc. py_max (found_hoists_of env knl es st dgl) = Inr (g, bc, pc)
               \<and> 1 \<le> g \<and> g \<le> length es \<and> g \<notin> dgl
               \<and> ((es' = take g es \<and> dgl' = insert g dgl) \<or> (es' = drop g es \<and> dgl' = {}))"
    using chosen g call by blast
  from call show "length es' < length es
                \<or> (es' = es \<and> dgl \<subset> dgl' \<and> dgl' \<subseteq> dgl \<union> {1..length es}
                    \<and> card ({1..length es} - dgl') < card ({1..length es} - dgl))"
  proof
    assume inner: "es' = take g es \<and> dgl' = insert g dgl \<and> g \<noteq> 1"
    show ?thesis
    proof (cases "g < length es")
      case True
      with inner show ?thesis by simp
    next
      case False
      with g have eq: "g = length es" by simp
      have "dgl \<subset> insert g dgl" using g(3) by blast
      moreover have "insert g dgl \<subseteq> dgl \<union> {1..length es}" using g by auto
      ultimately show ?thesis
        using inner eq card_done_decreases [OF g] by simp
    qed
  next
    assume "es' = drop g es \<and> dgl' = {}"
    with g ne show ?thesis by simp
  qed
qed

theorem build_insn_group_terminates_witness:
  "build_insn_group_dom (interval_env, three_insns, bounded_entries, initial_state, {})
   \<and> build_insn_group_rel
       (interval_env, three_insns, take 3 bounded_entries,
        new_codegen_state interval_env initial_state
          (combine_check_set interval_env [(0, 9)] None) [],
        insert 3 {})
       (interval_env, three_insns, bounded_entries, initial_state, {})
   \<and> take 3 bounded_entries = bounded_entries
   \<and> card ({1..length bounded_entries} - insert 3 {})
       < card ({1..length bounded_entries} - {})"
proof -
  have ne: "bounded_entries \<noteq> []" by (simp add: bounded_entries_def)
  have chosen: "py_max (found_hoists_of interval_env three_insns bounded_entries initial_state {}) =
      Inr (3, Some [(0, 9)], [])"
    by code_simp
  have nonempty: "\<not> check_set_is_empty interval_env (combine_check_set interval_env [(0, 9)] None)"
    by code_simp
  have rel: "build_insn_group_rel
       (interval_env, three_insns, take 3 bounded_entries,
        new_codegen_state interval_env initial_state
          (combine_check_set interval_env [(0, 9)] None) [],
        insert 3 {})
       (interval_env, three_insns, bounded_entries, initial_state, {})"
    by (rule build_insn_group_rel.intros(1) [OF ne chosen refl refl refl nonempty]) simp
  have same: "take 3 bounded_entries = bounded_entries" by (simp add: bounded_entries_def)
  have len: "length bounded_entries = 3" by (simp add: bounded_entries_def)
  from build_insn_group_terminates
    [of interval_env three_insns bounded_entries initial_state "{}"] rel
  have "length (take 3 bounded_entries) < length bounded_entries
        \<or> card ({1..length bounded_entries} - insert 3 {})
            < card ({1..length bounded_entries} - {})"
    by blast
  with same have "card ({1..length bounded_entries} - insert 3 {})
            < card ({1..length bounded_entries} - {})"
    by simp
  with build_insn_group_terminates
    [of interval_env three_insns bounded_entries initial_state "{}"] rel same
  show ?thesis by blast
qed

subsection \<open>Dead groups and the remainder\<close>

declare build_insn_group.simps [simp del]

lemma build_insn_group_unfold:
  assumes "es \<noteq> []" and "py_max (found_hoists_of env knl es st dgl) = Inr (g, bc, pc)"
  shows "build_insn_group env knl es st dgl =
     (case group_code env knl es st dgl (g, bc, pc) of
        Inl e \<Rightarrow> Inl e
      | Inr result \<Rightarrow>
          (case build_insn_group env knl (drop g es) st {} of
             Inl e \<Rightarrow> Inl e
           | Inr rest \<Rightarrow> Inr (result @ rest)))"
proof (cases bc)
  case None
  then show ?thesis
    using assms by (subst build_insn_group.simps) (simp add: group_code_def)
next
  case (Some bcs)
  then show ?thesis
    using assms by (subst build_insn_group.simps) (simp add: group_code_def)
qed

lemma combine_check_set_Some:
  "combine_check_set env bcs (Some s) =
     Some (foldl (isl_intersect env) s (map (isl_universe_add_constraint env) bcs))"
  by (induction bcs arbitrary: s) simp_all

lemma combine_check_set_None:
  "combine_check_set env bcs None =
     (case bcs of
        [] \<Rightarrow> None
      | cns # rest \<Rightarrow>
          Some (foldl (isl_intersect env) (isl_universe_add_constraint env cns)
                  (map (isl_universe_add_constraint env) rest)))"
  by (cases bcs) (simp_all add: combine_check_set_Some)

text \<open>
  Claim C2. The check set of the chosen group is built from its bounds-check constraints by
  taking the universe set with the first constraint and intersecting it with the universe
  set with each further one. If that set is empty, the group contributes no code:
  \<open>build_insn_group\<close> returns what it returns for the siblings after the group. In every
  case the siblings after the group are processed with the caller's codegen state and the
  empty \<open>done_group_lengths\<close>, whatever state the group was given.
\<close>

theorem build_insn_group_dead_group:
  assumes "es \<noteq> []"
    and "py_max (found_hoists_of env knl es st dgl) = Inr (g, Some bcs, pc)"
  shows "combine_check_set env bcs None =
           (case bcs of
              [] \<Rightarrow> None
            | cns # rest \<Rightarrow>
                Some (foldl (isl_intersect env) (isl_universe_add_constraint env cns)
                        (map (isl_universe_add_constraint env) rest)))
       \<and> (check_set_is_empty env (combine_check_set env bcs None) \<longrightarrow>
            group_code env knl es st dgl (g, Some bcs, pc) = Inr []
            \<and> build_insn_group env knl es st dgl = build_insn_group env knl (drop g es) st {})
       \<and> build_insn_group env knl es st dgl =
           (case group_code env knl es st dgl (g, Some bcs, pc) of
              Inl e \<Rightarrow> Inl e
            | Inr result \<Rightarrow>
                (case build_insn_group env knl (drop g es) st {} of
                   Inl e \<Rightarrow> Inl e
                 | Inr rest \<Rightarrow> Inr (result @ rest)))"
proof (intro conjI impI)
  show "combine_check_set env bcs None =
           (case bcs of
              [] \<Rightarrow> None
            | cns # rest \<Rightarrow>
                Some (foldl (isl_intersect env) (isl_universe_add_constraint env cns)
                        (map (isl_universe_add_constraint env) rest)))"
    by (rule combine_check_set_None)
next
  assume empty: "check_set_is_empty env (combine_check_set env bcs None)"
  then show dead: "group_code env knl es st dgl (g, Some bcs, pc) = Inr []"
    by (simp add: group_code_def)
  show "build_insn_group env knl es st dgl = build_insn_group env knl (drop g es) st {}"
    unfolding build_insn_group_unfold [OF assms] dead
    by (simp split: sum.splits)
next
  show "build_insn_group env knl es st dgl =
           (case group_code env knl es st dgl (g, Some bcs, pc) of
              Inl e \<Rightarrow> Inl e
            | Inr result \<Rightarrow>
                (case build_insn_group env knl (drop g es) st {} of
                   Inl e \<Rightarrow> Inl e
                 | Inr rest \<Rightarrow> Inr (result @ rest)))"
    by (rule build_insn_group_unfold [OF assms])
qed

theorem build_insn_group_dead_group_witness:
  "mixed_entries \<noteq> []
   \<and> py_max (found_hoists_of dead_env three_insns mixed_entries initial_state {}) =
       Inr (2, Some [(0, 9), (20, 30)], [])
   \<and> check_set_is_empty dead_env (combine_check_set dead_env [(0, 9), (20, 30)] None)
   \<and> build_insn_group dead_env three_insns mixed_entries initial_state {} =
       build_insn_group dead_env three_insns (drop 2 mixed_entries) initial_state {}
   \<and> build_insn_group dead_env three_insns (drop 2 mixed_entries) initial_state {} =
       Inr [Generated ''insn'']"
proof -
  have h1: "mixed_entries \<noteq> []" by (simp add: mixed_entries_def)
  have h2: "py_max (found_hoists_of dead_env three_insns mixed_entries initial_state {}) =
       Inr (2, Some [(0, 9), (20, 30)], [])"
    by code_simp
  have empty: "check_set_is_empty dead_env (combine_check_set dead_env [(0, 9), (20, 30)] None)"
    by code_simp
  have rest: "build_insn_group dead_env three_insns (drop 2 mixed_entries) initial_state {} =
       Inr [Generated ''insn'']"
    by code_simp
  from build_insn_group_dead_group [OF h1 h2] empty
  have "build_insn_group dead_env three_insns mixed_entries initial_state {} =
       build_insn_group dead_env three_insns (drop 2 mixed_entries) initial_state {}"
    by blast
  with h1 h2 empty rest show ?thesis by blast
qed

subsection \<open>Predicates already implemented\<close>













section \<open>Properties of the isl helpers\<close>

subsection \<open>Static extremum\<close>

text \<open>
  With a number of pieces other than one, the result is the first piece whose set method
  gives the whole aggregate domain, among the constant pieces if \<open>constants_only\<close> is set,
  and the error if there is no such piece.
\<close>

lemma static_extremum_multi:
  assumes "length (get_pieces pw) \<noteq> 1"
  shows "static_extremum_of_pw_aff is_cst pw constants_only set_method what =
     (case find (\<lambda>(piece_set, candidate_aff).
                      (constants_only \<longrightarrow> is_cst candidate_aff)
                      \<and> set_method pw candidate_aff = get_aggregate_domain pw)
             (get_pieces pw) of
        Some (piece_set, candidate_aff) \<Rightarrow> Inr candidate_aff
      | None \<Rightarrow> Inl (ValueError what))"
proof -
  have "(\<lambda>(piece_set, candidate_aff).
            \<not> (constants_only \<and> \<not> is_cst candidate_aff)
            \<and> set_method pw candidate_aff = get_aggregate_domain pw) =
        (\<lambda>(piece_set, candidate_aff).
            (constants_only \<longrightarrow> is_cst candidate_aff)
            \<and> set_method pw candidate_aff = get_aggregate_domain pw)"
    by auto
  with assms show ?thesis
    by (simp add: static_extremum_of_pw_aff_def Let_def)
qed

lemma static_extremum_multi_found:
  assumes "length (get_pieces pw) \<noteq> 1"
    and "static_extremum_of_pw_aff is_cst pw constants_only set_method what = Inr a"
  shows "a \<in> snd ` set (get_pieces pw) \<and> (constants_only \<longrightarrow> is_cst a)
       \<and> set_method pw a = get_aggregate_domain pw"
proof -
  from assms(2) obtain s where
    f: "find (\<lambda>(piece_set, candidate_aff).
                      (constants_only \<longrightarrow> is_cst candidate_aff)
                      \<and> set_method pw candidate_aff = get_aggregate_domain pw)
             (get_pieces pw) = Some (s, a)"
    unfolding static_extremum_multi [OF assms(1)]
    by (auto split: option.splits)
  then have mem: "(s, a) \<in> set (get_pieces pw)"
    and cst: "constants_only \<longrightarrow> is_cst a"
    and dom: "set_method pw a = get_aggregate_domain pw"
    by (auto simp: find_Some_iff in_set_conv_nth)
  from mem have "a \<in> snd ` set (get_pieces pw)" by force
  with cst dom show ?thesis by blast
qed

lemma static_extremum_multi_not_found:
  assumes "length (get_pieces pw) \<noteq> 1"
  shows "static_extremum_of_pw_aff is_cst pw constants_only set_method what = Inl e
     \<longleftrightarrow> e = ValueError what
         \<and> (\<forall>(s, a) \<in> set (get_pieces pw).
               \<not> ((constants_only \<longrightarrow> is_cst a)
                  \<and> set_method pw a = get_aggregate_domain pw))"
proof (cases "find (\<lambda>(piece_set, candidate_aff).
                      (constants_only \<longrightarrow> is_cst candidate_aff)
                      \<and> set_method pw candidate_aff = get_aggregate_domain pw)
             (get_pieces pw)")
  case None
  then have "\<forall>(s, a) \<in> set (get_pieces pw).
               \<not> ((constants_only \<longrightarrow> is_cst a)
                  \<and> set_method pw a = get_aggregate_domain pw)"
    unfolding find_None_iff by blast
  then show ?thesis
    unfolding static_extremum_multi [OF assms] None by auto
next
  case (Some p)
  then have "p \<in> set (get_pieces pw)"
    and "case p of (s, a) \<Rightarrow> (constants_only \<longrightarrow> is_cst a)
                  \<and> set_method pw a = get_aggregate_domain pw"
    by (auto simp: find_Some_iff in_set_conv_nth)
  then have "\<not> (\<forall>(s, a) \<in> set (get_pieces pw).
               \<not> ((constants_only \<longrightarrow> is_cst a)
                  \<and> set_method pw a = get_aggregate_domain pw))"
    by blast
  with Some show ?thesis
    unfolding static_extremum_multi [OF assms] by (cases p) simp
qed

text \<open>With exactly one piece, that piece is the result, whatever \<open>constants_only\<close> is.\<close>

lemma static_extremum_single:
  "get_pieces pw = [(s, a)] \<Longrightarrow>
     static_extremum_of_pw_aff is_cst pw constants_only set_method what = Inr a"
  by (simp add: static_extremum_of_pw_aff_def)

text \<open>
  Claim C8. The static minimum and maximum are said to consider only constant pieces when
  \<open>constants_only\<close> is set. For the expression \<open>{ [i] -> [(i)] : i >= 0 }\<close>, whose one piece
  \<open>i\<close> is not constant, \<open>static_min_of_pw_aff\<close> and \<open>static_max_of_pw_aff\<close> with
  \<open>constants_only\<close> set return that piece, whatever the library's \<open>ge_set\<close> and \<open>le_set\<close>
  are: the return for a single piece (lines 144 and 145) comes before the test of
  \<open>constants_only\<close> in the loop.
\<close>

theorem static_extremum_ignores_constants_only:
  "get_pieces identity_on_naturals = [({i. 0 \<le> i}, (1, 0))]
   \<and> \<not> affine_is_cst (1, 0)
   \<and> static_min_of_pw_aff affine_is_cst ge_set identity_on_naturals True = Inr (1, 0)
   \<and> static_max_of_pw_aff affine_is_cst le_set identity_on_naturals True = Inr (1, 0)"
  by (simp add: identity_on_naturals_def affine_is_cst_def static_min_of_pw_aff_def
      static_max_of_pw_aff_def static_extremum_of_pw_aff_def)

subsection \<open>Single-valued piece\<close>

lemma pw_aff_to_aff_cases:
  "pw_aff_to_aff plain_is_equal pw =
     (case get_pieces pw of
        [] \<Rightarrow> Inl RuntimeError
      | (s, a) # rest \<Rightarrow>
          if \<exists>b \<in> snd ` set rest. \<not> plain_is_equal a b then Inl NotImplementedError
          else Inr a)"
proof (cases "get_pieces pw")
  case Nil
  then show ?thesis by (simp add: pw_aff_to_aff_def)
next
  case (Cons p rest)
  obtain s a where p: "p = (s, a)" by (cases p)
  have ex: "list_ex (\<lambda>(_, other_aff). \<not> plain_is_equal a other_aff) rest
              \<longleftrightarrow> (\<exists>b \<in> snd ` set rest. \<not> plain_is_equal a b)"
    by (force simp: list_ex_iff)
  show ?thesis
  proof (cases rest)
    case Nil
    with Cons p show ?thesis by (simp add: pw_aff_to_aff_def)
  next
    case (Cons q rest')
    with \<open>get_pieces pw = p # rest\<close> p ex show ?thesis
      by (simp add: pw_aff_to_aff_def Let_def)
  qed
qed

text \<open>
  Claim C9. \<open>pw_aff_to_aff\<close> fails with a RuntimeError if there is no piece; it returns the
  piece of an expression with exactly one piece; it returns the first piece if all pieces
  are pairwise equal. It fails with a NotImplementedError if there is more than one piece
  and a later piece is not equal to the first; where \<open>plain_is_equal\<close> is an equivalence,
  that is so as soon as two pieces are not equal. Every failure is one of these two.
\<close>

theorem pw_aff_to_aff_spec:
  "(get_pieces pw = [] \<longrightarrow> pw_aff_to_aff plain_is_equal pw = Inl RuntimeError)
   \<and> (\<forall>s a. get_pieces pw = [(s, a)] \<longrightarrow> pw_aff_to_aff plain_is_equal pw = Inr a)
   \<and> (get_pieces pw \<noteq> []
        \<and> (\<forall>a \<in> snd ` set (get_pieces pw). \<forall>b \<in> snd ` set (get_pieces pw). plain_is_equal a b)
        \<longrightarrow> pw_aff_to_aff plain_is_equal pw = Inr (snd (hd (get_pieces pw))))
   \<and> (length (get_pieces pw) > 1
        \<and> (\<exists>b \<in> snd ` set (tl (get_pieces pw)). \<not> plain_is_equal (snd (hd (get_pieces pw))) b)
        \<longrightarrow> pw_aff_to_aff plain_is_equal pw = Inl NotImplementedError)
   \<and> (equivp plain_is_equal
        \<and> (\<exists>a \<in> snd ` set (get_pieces pw). \<exists>b \<in> snd ` set (get_pieces pw). \<not> plain_is_equal a b)
        \<longrightarrow> pw_aff_to_aff plain_is_equal pw = Inl NotImplementedError)
   \<and> (\<forall>e. pw_aff_to_aff plain_is_equal pw = Inl e \<longrightarrow>
          (e = RuntimeError \<and> get_pieces pw = [])
          \<or> (e = NotImplementedError \<and> length (get_pieces pw) > 1
              \<and> (\<exists>b \<in> snd ` set (tl (get_pieces pw)).
                    \<not> plain_is_equal (snd (hd (get_pieces pw))) b)))"
proof (cases "get_pieces pw")
  case Nil
  then show ?thesis by (simp add: pw_aff_to_aff_cases)
next
  case (Cons p rest)
  obtain s a where p: "p = (s, a)" by (cases p)
  note pieces = Cons [unfolded p]
  have result: "pw_aff_to_aff plain_is_equal pw =
      (if \<exists>b \<in> snd ` set rest. \<not> plain_is_equal a b then Inl NotImplementedError else Inr a)"
    by (simp add: pw_aff_to_aff_cases pieces)
  have c3: "pw_aff_to_aff plain_is_equal pw = Inr a"
    if "\<forall>x \<in> snd ` set (get_pieces pw). \<forall>y \<in> snd ` set (get_pieces pw). plain_is_equal x y"
  proof -
    from that have "\<forall>b \<in> snd ` set rest. plain_is_equal a b"
      unfolding pieces by simp
    then show ?thesis unfolding result by auto
  qed
  have c5: "pw_aff_to_aff plain_is_equal pw = Inl NotImplementedError"
    if eq: "equivp plain_is_equal"
      and ne: "\<exists>x \<in> snd ` set (get_pieces pw). \<exists>y \<in> snd ` set (get_pieces pw). \<not> plain_is_equal x y"
  proof (rule ccontr)
    assume "pw_aff_to_aff plain_is_equal pw \<noteq> Inl NotImplementedError"
    then have all: "\<forall>b \<in> snd ` set rest. plain_is_equal a b"
      unfolding result by (auto split: if_splits)
    from ne obtain x y where xy: "x \<in> insert a (snd ` set rest)" "y \<in> insert a (snd ` set rest)"
      "\<not> plain_is_equal x y"
      unfolding pieces by auto
    have refl_a: "plain_is_equal a a" using eq by (rule equivp_reflp)
    from xy(1) all refl_a have ax: "plain_is_equal a x" by blast
    from xy(2) all refl_a have ay: "plain_is_equal a y" by blast
    from eq ax have "plain_is_equal x a" by (rule equivp_symp)
    from eq this ay have "plain_is_equal x y" by (rule equivp_transp)
    with xy(3) show False by contradiction
  qed
  show ?thesis
    using c3 c5 by (auto simp: result pieces)
qed

theorem pw_aff_to_aff_witness:
  "get_pieces no_pieces = []
   \<and> pw_aff_to_aff (=) no_pieces = Inl RuntimeError
   \<and> get_pieces identity_on_naturals = [({i. 0 \<le> i}, (1, 0))]
   \<and> pw_aff_to_aff (=) identity_on_naturals = Inr (1, 0)
   \<and> get_pieces equal_pieces = [({i. i < 0}, (0, 7)), ({i. 0 \<le> i}, (0, 7))]
   \<and> pw_aff_to_aff (=) equal_pieces = Inr (0, 7)
   \<and> get_pieces distinct_pieces = [({i. i < 0}, (0, 0)), ({i. 0 \<le> i}, (1, 0))]
   \<and> pw_aff_to_aff (=) distinct_pieces = Inl NotImplementedError"
proof -
  note spec = pw_aff_to_aff_spec [where plain_is_equal = "(=) :: affine \<Rightarrow> affine \<Rightarrow> bool"]
  have eq: "equivp ((=) :: affine \<Rightarrow> affine \<Rightarrow> bool)" by (rule identity_equivp)
  have p0: "get_pieces no_pieces = []" by (simp add: no_pieces_def)
  have p1: "get_pieces identity_on_naturals = [({i. 0 \<le> i}, (1, 0))]"
    by (simp add: identity_on_naturals_def)
  have p2: "get_pieces equal_pieces = [({i. i < 0}, (0, 7)), ({i. 0 \<le> i}, (0, 7))]"
    by (simp add: equal_pieces_def)
  have p3: "get_pieces distinct_pieces = [({i. i < 0}, (0, 0)), ({i. 0 \<le> i}, (1, 0))]"
    by (simp add: distinct_pieces_def)
  from spec [where pw = no_pieces] p0
  have r0: "pw_aff_to_aff (=) no_pieces = Inl RuntimeError" by simp
  from spec [where pw = identity_on_naturals] p1
  have r1: "pw_aff_to_aff (=) identity_on_naturals = Inr (1, 0)" by simp
  from spec [where pw = equal_pieces] p2
  have r2: "pw_aff_to_aff (=) equal_pieces = Inr (0, 7)" by simp
  from spec [where pw = distinct_pieces] p3 eq
  have r3: "pw_aff_to_aff (=) distinct_pieces = Inl NotImplementedError" by simp
  from p0 r0 p1 r1 p2 r2 p3 r3 show ?thesis by simp
qed

section \<open>Properties of the ISPC target\<close>

lemma check_local_sizes_error:
  "\<exists>ls \<in> set sizes. ls \<noteq> IntSize 1 \<Longrightarrow> is_error (check_local_sizes env sizes)"
  by (induction sizes) (auto simp: is_error_def split: sum.splits)

lemma check_local_sizes_ok:
  "\<forall>ls \<in> set sizes. ls = IntSize 1 \<Longrightarrow> check_local_sizes env sizes = Inr ()"
  by (induction sizes) auto

lemma check_local_sizes_LoopyError:
  "\<exists>ls \<in> set sizes. ls \<noteq> IntSize 1 \<Longrightarrow> \<forall>ls. \<exists>msg. format_d env ls = Inr msg \<Longrightarrow>
     check_local_sizes env sizes = Inl LoopyError"
proof (induction sizes)
  case Nil
  then show ?case by simp
next
  case (Cons ls sizes)
  from Cons.prems(2) obtain msg where "format_d env ls = Inr msg" by blast
  with Cons show ?case by auto
qed

lemma ccm_all_ok:
  "\<forall>s p. \<exists>code. ccm env s p = Inr code \<Longrightarrow> \<exists>ss. ccm_all env sizes = Inr ss"
proof (induction sizes)
  case Nil
  show ?case by simp
next
  case (Cons s sizes)
  from Cons.prems obtain c where "ccm env s PREC_NONE = Inr c" by blast
  moreover from Cons obtain ss where "ccm_all env sizes = Inr ss" by blast
  ultimately show ?case by simp
qed

lemma generate_code_body_error:
  "generate_body env = Inl e \<Longrightarrow> generate_code occa_mode env knl impl_arg_info = Inl e"
  by (simp add: generate_code_def)

lemma generate_code_check_error:
  assumes "generate_body env = Inr body"
    and "length (lsize knl) > 1" and "check_local_sizes env (tl (lsize knl)) = Inl e"
  shows "generate_code occa_mode env knl impl_arg_info = Inl e"
  using assms by (cases body) (simp add: generate_code_def Let_def)

lemma generate_code_accepts:
  assumes body: "generate_body env = Inr body"
    and sizes: "\<forall>ls \<in> set (tl (lsize knl)). ls = IntSize 1"
    and ccm: "\<forall>s p. \<exists>code. ccm env s p = Inr code"
  shows "\<exists>r. generate_code occa_mode env knl impl_arg_info = Inr r"
proof -
  obtain b d where bd: "body = (b, d)" by (cases body)
  have chk: "check_local_sizes env (tl (lsize knl)) = Inr ()"
    by (rule check_local_sizes_ok [OF sizes])
  from ccm obtain c where c: "ccm env (hd (lsize knl)) PREC_COMPARISON = Inr c" by blast
  from ccm_all_ok [OF ccm] obtain ss where ss: "ccm_all env (gsize knl) = Inr ss" by blast
  show ?thesis
    unfolding generate_code_def Let_def by (simp add: body bd chk c ss)
qed

text \<open>
  Claim C10. Mapping a local hardware index with an axis other than 0 raises a LoopyError;
  with axis 0 it gives the program index (for an index type of int32 or int64) and never
  that error. Code generation raises an error if a local size after the first is not 1: the
  LoopyError, where the body is generated and the message can be formatted. If every local
  size after the first is 1, and the body generator and the expression mapper succeed, code
  generation succeeds.
\<close>

theorem ispc_one_local_axis:
  "(axis \<noteq> 0 \<longrightarrow> map_local_hw_index dtype axis = Inl LoopyError)
   \<and> map_local_hw_index Int32 0 = Inr ''(varying int32) programIndex''
   \<and> map_local_hw_index Int64 0 = Inr ''(varying int64) programIndex''
   \<and> map_local_hw_index dtype 0 \<noteq> Inl LoopyError
   \<and> ((\<exists>ls \<in> set (tl (lsize knl)). ls \<noteq> IntSize 1) \<longrightarrow>
         is_error (generate_code occa_mode env knl impl_arg_info)
         \<and> ((\<exists>body. generate_body env = Inr body) \<and> (\<forall>ls. \<exists>msg. format_d env ls = Inr msg) \<longrightarrow>
              generate_code occa_mode env knl impl_arg_info = Inl LoopyError))
   \<and> ((\<forall>ls \<in> set (tl (lsize knl)). ls = IntSize 1)
        \<and> (\<exists>body. generate_body env = Inr body)
        \<and> (\<forall>s p. \<exists>code. ccm env s p = Inr code) \<longrightarrow>
         \<not> is_error (generate_code occa_mode env knl impl_arg_info))"
proof (intro conjI impI)
  show "map_local_hw_index dtype axis = Inl LoopyError" if "axis \<noteq> 0"
    using that by (simp add: map_local_hw_index_def)
  show "map_local_hw_index Int32 0 = Inr ''(varying int32) programIndex''"
    by (simp add: map_local_hw_index_def get_index_ctype_def)
  show "map_local_hw_index Int64 0 = Inr ''(varying int64) programIndex''"
    by (simp add: map_local_hw_index_def get_index_ctype_def)
  show "map_local_hw_index dtype 0 \<noteq> Inl LoopyError"
    by (cases dtype) (simp_all add: map_local_hw_index_def get_index_ctype_def)
next
  assume bad: "\<exists>ls \<in> set (tl (lsize knl)). ls \<noteq> IntSize 1"
  then have "tl (lsize knl) \<noteq> []" by auto
  then have len: "length (lsize knl) > 1" by (cases "lsize knl") auto
  from check_local_sizes_error [OF bad, of env] obtain e where
    chk: "check_local_sizes env (tl (lsize knl)) = Inl e"
    by (auto simp: is_error_def split: sum.splits)
  show "is_error (generate_code occa_mode env knl impl_arg_info)"
  proof (cases "generate_body env")
    case (Inl e')
    then show ?thesis by (simp add: generate_code_body_error is_error_def)
  next
    case (Inr body)
    from generate_code_check_error [OF Inr len chk] show ?thesis by (simp add: is_error_def)
  qed
  show "generate_code occa_mode env knl impl_arg_info = Inl LoopyError"
    if "(\<exists>body. generate_body env = Inr body) \<and> (\<forall>ls. \<exists>msg. format_d env ls = Inr msg)"
  proof -
    from that obtain body where body: "generate_body env = Inr body" by blast
    from that have "check_local_sizes env (tl (lsize knl)) = Inl LoopyError"
      by (intro check_local_sizes_LoopyError [OF bad]) blast
    with body len show ?thesis by (rule_tac generate_code_check_error)
  qed
next
  assume ok: "(\<forall>ls \<in> set (tl (lsize knl)). ls = IntSize 1)
        \<and> (\<exists>body. generate_body env = Inr body)
        \<and> (\<forall>s p. \<exists>code. ccm env s p = Inr code)"
  then obtain body where "generate_body env = Inr body" by blast
  from generate_code_accepts [OF this, of knl occa_mode impl_arg_info] ok
  show "\<not> is_error (generate_code occa_mode env knl impl_arg_info)"
    by (auto simp: is_error_def)
qed

theorem ispc_one_local_axis_witness:
  "(1::int) \<noteq> 0 \<and> map_local_hw_index Int32 1 = Inl LoopyError
   \<and> IntSize 4 \<in> set (tl (lsize two_local_axes)) \<and> IntSize 4 \<noteq> IntSize 1
   \<and> is_error (generate_code False example_ispc_env two_local_axes [])
   \<and> generate_code False example_ispc_env one_local_axis [] =
       Inr ((\<lparr>fdecl_name = ''lp_ispc_inner_knl'', fdecl_arg_decls = [], fbody = ''body''\<rparr>,
             \<lparr>fdecl_name = ''knl'', fdecl_arg_decls = [],
              fbody = [''assert(programCount == 8)'', ''launch[n] lp_ispc_inner_knl()'']\<rparr>),
            ())"
proof -
  have bad: "\<exists>ls \<in> set (tl (lsize two_local_axes)). ls \<noteq> IntSize 1"
    by (simp add: two_local_axes_def)
  have accepted: "generate_code False example_ispc_env one_local_axis [] =
       Inr ((\<lparr>fdecl_name = ''lp_ispc_inner_knl'', fdecl_arg_decls = [], fbody = ''body''\<rparr>,
             \<lparr>fdecl_name = ''knl'', fdecl_arg_decls = [],
              fbody = [''assert(programCount == 8)'', ''launch[n] lp_ispc_inner_knl()'']\<rparr>),
            ())"
    by (simp add: generate_code_def example_ispc_env_def one_local_axis_def)
  from ispc_one_local_axis [of 1 Int32 two_local_axes False example_ispc_env "[]"] bad
  have "map_local_hw_index Int32 1 = Inl LoopyError
        \<and> is_error (generate_code False example_ispc_env two_local_axes [])"
    by simp
  with accepted show ?thesis by (simp add: two_local_axes_def)
qed

end
